theory Spec2Isabelle
  imports Main "HOL-Library.Sublist" "HOL-Library.Multiset" "HOL-Library.AList"
begin

section \<open>Python strings and the character classes the cleaner uses\<close>

text \<open>
  A Python \<open>str\<close> is a sequence of Unicode code points, and \<open>len\<close> counts code points.
  A string is therefore a list of code points, each a natural number. \<open>py\<close> writes an
  ASCII literal of the source as such a list.
\<close>

type_synonym pystr = "nat list"

definition py :: "string \<Rightarrow> pystr" where
  "py s = map of_char s"

text \<open>
  The cleaner asks three things of the Unicode character database: which code points
  are whitespace (\<open>str.strip\<close> and the pattern \<open>\s\<close> both use \<open>Py_UNICODE_ISSPACE\<close>),
  which are alphanumeric (\<open>\w\<close> is alphanumeric or underscore), and what \<open>str.lower\<close>
  returns. On ASCII the answers are fixed and written out below. Beyond ASCII they
  depend on the Unicode version of the interpreter, so that part of the database is a
  parameter \<open>u\<close> of every function that consults it. \<open>str.lower\<close> is not a map over code
  points beyond ASCII (final sigma), so \<open>uni_lower\<close> takes the whole string.
\<close>

record unicode =
  uni_space :: "nat \<Rightarrow> bool"
  uni_alnum :: "nat \<Rightarrow> bool"
  uni_lower :: "pystr \<Rightarrow> pystr"

definition ascii_space :: "nat \<Rightarrow> bool" where
  "ascii_space c = ((9 \<le> c \<and> c \<le> 13) \<or> (28 \<le> c \<and> c \<le> 32))"

definition ascii_alnum :: "nat \<Rightarrow> bool" where
  "ascii_alnum c = ((48 \<le> c \<and> c \<le> 57) \<or> (65 \<le> c \<and> c \<le> 90) \<or> (97 \<le> c \<and> c \<le> 122))"

definition ascii_lower :: "nat \<Rightarrow> nat" where
  "ascii_lower c = (if 65 \<le> c \<and> c \<le> 90 then c + 32 else c)"

definition isspace :: "unicode \<Rightarrow> nat \<Rightarrow> bool" where
  "isspace u c = (if c < 128 then ascii_space c else uni_space u c)"

definition isalnum :: "unicode \<Rightarrow> nat \<Rightarrow> bool" where
  "isalnum u c = (if c < 128 then ascii_alnum c else uni_alnum u c)"

text \<open>The class \<open>\w\<close> of a \<open>str\<close> pattern.\<close>

definition isword :: "unicode \<Rightarrow> nat \<Rightarrow> bool" where
  "isword u c = (isalnum u c \<or> c = 95)"

text \<open>\<open>str.lower()\<close>: CPython lowers an all-ASCII string code point by code point.\<close>

definition lower :: "unicode \<Rightarrow> pystr \<Rightarrow> pystr" where
  "lower u s = (if list_all (\<lambda>c. c < 128) s then map ascii_lower s else uni_lower u s)"

text \<open>\<open>str.strip()\<close> with no argument removes leading and trailing whitespace.\<close>

definition lstrip :: "unicode \<Rightarrow> pystr \<Rightarrow> pystr" where
  "lstrip u s = dropWhile (isspace u) s"

definition rstrip :: "unicode \<Rightarrow> pystr \<Rightarrow> pystr" where
  "rstrip u s = rev (dropWhile (isspace u) (rev s))"

definition strip :: "unicode \<Rightarrow> pystr \<Rightarrow> pystr" where
  "strip u s = rstrip u (lstrip u s)"

text \<open>\<open>str.startswith\<close>.\<close>

definition startswith :: "pystr \<Rightarrow> pystr \<Rightarrow> bool" where
  "startswith s p = (take (length p) s = p)"

section \<open>Text normalization: \<open>clean_text\<close>\<close>

text \<open>
  \<open>match_entity u s\<close> is one attempt of the regex engine to match \<open>&\w+;\<close> at the head
  of \<open>s\<close>; on success it returns what follows the match. The greedy \<open>\w+\<close> takes the
  longest run of word characters; giving characters back cannot help, because the
  character after a shorter run is a word character and \<open>;\<close> is not one.
\<close>

definition match_entity :: "unicode \<Rightarrow> pystr \<Rightarrow> pystr option" where
  "match_entity u s =
     (case s of
        [] \<Rightarrow> None
      | c # cs \<Rightarrow>
          if c = 38 then
            (if takeWhile (isword u) cs = [] then None
             else (case dropWhile (isword u) cs of
                     [] \<Rightarrow> None
                   | d # rest \<Rightarrow> if d = 59 then Some rest else None))
          else None)"

text \<open>
  \<open>re.sub(r"&\w+;", " ", text)\<close>: scan from the left; where the pattern matches, emit one
  space and continue after the match, otherwise copy the code point and move on by one.
\<close>

function sub_entity :: "unicode \<Rightarrow> pystr \<Rightarrow> pystr" where
  "sub_entity u [] = []"
| "sub_entity u (c # cs) =
     (case match_entity u (c # cs) of
        Some rest \<Rightarrow> 32 # sub_entity u rest
      | None \<Rightarrow> c # sub_entity u cs)"
  by pat_completeness auto
termination
proof (relation "measure (\<lambda>(u, s). length s)")
  fix u :: unicode and c :: nat and cs rest :: pystr
  assume "match_entity u (c # cs) = Some rest"
  then obtain d where "dropWhile (isword u) cs = d # rest"
    by (auto simp: match_entity_def split: if_splits list.splits)
  then have "length (d # rest) \<le> length cs"
    using length_dropWhile_le [of "isword u" cs] by simp
  then show "((u, rest), (u, c # cs)) \<in> measure (\<lambda>(u, s). length s)"
    by simp
qed auto

text \<open>
  \<open>re.sub(r"\s+", " ", text)\<close>: every maximal run of whitespace becomes one space.
\<close>

function sub_space :: "unicode \<Rightarrow> pystr \<Rightarrow> pystr" where
  "sub_space u [] = []"
| "sub_space u (c # cs) =
     (if isspace u c then 32 # sub_space u (dropWhile (isspace u) cs)
      else c # sub_space u cs)"
  by pat_completeness auto
termination
  by (relation "measure (\<lambda>(u, s). length s)")
     (auto simp: length_dropWhile_le less_Suc_eq_le)

text \<open>
  \<open>clean_text\<close>. Its argument is a \<open>str\<close> by annotation; \<open>None\<close> stands for Python's
  \<open>None\<close>, which \<open>not text\<close> also sends to the empty string.
\<close>

definition clean_text :: "unicode \<Rightarrow> pystr option \<Rightarrow> pystr" where
  "clean_text u text =
     (case text of
        None \<Rightarrow> []
      | Some s \<Rightarrow>
          if s = [] then []
          else strip u (sub_space u (sub_entity u s)))"


text \<open>
  What the specification promises of a normalized text, as three tests on a string:
  a substring matching \<open>&\w+;\<close> somewhere, two adjacent whitespace code points somewhere,
  whitespace at either end.
\<close>

fun contains_entity :: "unicode \<Rightarrow> pystr \<Rightarrow> bool" where
  "contains_entity u [] = False"
| "contains_entity u (c # cs) =
     (case match_entity u (c # cs) of Some rest \<Rightarrow> True | None \<Rightarrow> contains_entity u cs)"

fun ws_run :: "unicode \<Rightarrow> pystr \<Rightarrow> bool" where
  "ws_run u (c # d # cs) = ((isspace u c \<and> isspace u d) \<or> ws_run u (d # cs))"
| "ws_run u cs = False"

definition edge_space :: "unicode \<Rightarrow> pystr \<Rightarrow> bool" where
  "edge_space u s = (case s of [] \<Rightarrow> False | c # cs \<Rightarrow> isspace u c \<or> isspace u (last s))"

text \<open>
  The invariant behind idempotence: every whitespace code point is the space U+0020
  and the code point after it is not whitespace.
\<close>

fun tidy :: "unicode \<Rightarrow> pystr \<Rightarrow> bool" where
  "tidy u [] = True"
| "tidy u [c] = (if isspace u c then c = 32 else True)"
| "tidy u (c # d # cs) =
     ((if isspace u c then c = 32 \<and> \<not> isspace u d else True) \<and> tidy u (d # cs))"

section \<open>Values, rows and frames\<close>

text \<open>
  A field of a scraped record, and a cell of the data frame built from the records, holds
  a \<open>str\<close>, \<open>None\<close> (JSON \<open>null\<close>) or the float NaN, which pandas puts where a record
  lacks a key that another record has. Numbers and nested containers do not occur in
  the scraper's output and are left out. \<open>str\<close> is Python's \<open>str()\<close> on such a value.
\<close>

datatype pyval = PNone | PNaN | PStr pystr

definition str :: "pyval \<Rightarrow> pystr" where
  "str v = (case v of PNone \<Rightarrow> py ''None'' | PNaN \<Rightarrow> py ''nan'' | PStr s \<Rightarrow> s)"

text \<open>
  A JSON object, and a row handed to \<open>categorize_unclean\<close> (a \<open>pd.Series\<close> indexed by
  column label), is an association list from labels to values; \<open>get\<close> is \<open>.get(key, default)\<close>.
\<close>

type_synonym series = "(pystr \<times> pyval) list"

definition get :: "series \<Rightarrow> pystr \<Rightarrow> pyval \<Rightarrow> pyval" where
  "get row k d = (case map_of row k of None \<Rightarrow> d | Some v \<Rightarrow> v)"

text \<open>
  The configuration read from \<open>config.json\<close>; \<open>MIN_ANSWER_LEN\<close> is
  \<open>config.get("min_answer_length", 15)\<close>.
\<close>

record config =
  output_folder :: pystr
  raw_file :: pystr
  clean_file :: pystr
  unclean_file :: pystr
  min_answer_length :: "int option"

definition MIN_ANSWER_LEN :: "config \<Rightarrow> int" where
  "MIN_ANSWER_LEN cfg = (case min_answer_length cfg of None \<Rightarrow> 15 | Some n \<Rightarrow> n)"

section \<open>The classifier: \<open>categorize_unclean\<close>\<close>

text \<open>
  The threshold \<open>m\<close> is the value of the module-level \<open>MIN_ANSWER_LEN\<close>. The result is
  the \<open>str\<close> the source returns. The source also computes \<open>q\<close> from the question and
  never reads it.
\<close>

definition categorize_unclean :: "unicode \<Rightarrow> int \<Rightarrow> series \<Rightarrow> pystr" where
  "categorize_unclean u m row =
     (let ans = strip u (str (get row (py ''answer'') (PStr [])));
          q = strip u (str (get row (py ''question'') (PStr [])));
          url = get row (py ''url'') (PStr [])
      in if lower u ans \<in> set [[], py ''none'', py ''nan''] then py ''No Answer''
         else if (case url of PStr s \<Rightarrow> \<not> startswith s (py ''https'') | _ \<Rightarrow> True)
              then py ''Malformed Entry''
         else if int (length ans) < m then py ''Too Short''
         else py ''Other'')"

text \<open>
  The classifier as section 4.2 of the specification words it, over the three fields it
  names: absent fields default to the empty string, and the four rules are tried in order.
\<close>

datatype reason = No_Answer | Malformed_Entry | Too_Short | Other

definition reason_str :: "reason \<Rightarrow> pystr" where
  "reason_str r =
     (case r of No_Answer \<Rightarrow> py ''No Answer'' | Malformed_Entry \<Rightarrow> py ''Malformed Entry''
      | Too_Short \<Rightarrow> py ''Too Short'' | Other \<Rightarrow> py ''Other'')"

definition classify :: "unicode \<Rightarrow> int \<Rightarrow> pyval option \<Rightarrow> pyval option \<Rightarrow> reason" where
  "classify u m answer url =
     (let a = strip u (str (case answer of None \<Rightarrow> PStr [] | Some v \<Rightarrow> v));
          l = lower u a
      in if l = [] \<or> l = py ''none'' \<or> l = py ''nan'' then No_Answer
         else (case url of
                 Some (PStr s) \<Rightarrow>
                   if take 5 s = py ''https'' then
                     (if int (length a) < m then Too_Short else Other)
                   else Malformed_Entry
               | None \<Rightarrow> Malformed_Entry
               | Some v \<Rightarrow> Malformed_Entry))"

section \<open>The data frame and the steps of \<open>clean_dataset\<close>\<close>

text \<open>
  A frame has its column labels and its rows, each row with its index label and one cell
  per column. \<open>first_seen\<close> keeps the elements whose key has not been seen before, in
  their order; it orders the columns of \<open>pd.DataFrame(data)\<close> and is the body of
  \<open>drop_duplicates\<close> with the default \<open>keep='first'\<close>.
\<close>

record frame =
  columns :: "pystr list"
  rows :: "(nat \<times> series) list"

fun first_seen :: "'k list \<Rightarrow> ('a \<Rightarrow> 'k) \<Rightarrow> 'a list \<Rightarrow> 'a list" where
  "first_seen seen key [] = []"
| "first_seen seen key (x # xs) =
     (if key x \<in> set seen then first_seen seen key xs
      else x # first_seen (key x # seen) key xs)"

text \<open>
  \<open>pd.DataFrame(data)\<close> on a list of JSON objects: the columns are the keys in order of
  first appearance, the index is \<open>0 .. n-1\<close>, and a key missing from a record is NaN.
  pandas then infers the type of each column. A column in which no record holds a
  string and at least one holds NaN or lacks the key becomes a float column, and every
  cell of it is NaN, a null included. A column with a string in it stays an object
  column and keeps \<open>None\<close> and NaN apart, as does a column of nulls only.
\<close>

definition float_column :: "series list \<Rightarrow> pystr \<Rightarrow> bool" where
  "float_column data k =
     (list_ex (\<lambda>record. get record k PNaN = PNaN) data
      \<and> list_all (\<lambda>record. case get record k PNaN of PStr s \<Rightarrow> False | _ \<Rightarrow> True) data)"

definition DataFrame :: "series list \<Rightarrow> frame" where
  "DataFrame data =
     (let cols = first_seen [] (\<lambda>k. k) (concat (map (map fst) data))
      in \<lparr>columns = cols,
          rows = enumerate 0
                   (map (\<lambda>record.
                           map (\<lambda>k. (k, if float_column data k then PNaN else get record k PNaN)) cols)
                      data)\<rparr>)"

text \<open>
  Step 2, for one column: \<open>if col in df.columns: df[col] = df[col].astype(str).apply(clean_text)\<close>.
  \<open>astype(str)\<close> turns every cell into its \<open>str()\<close>, so \<open>None\<close> becomes the text
  \<open>None\<close> and NaN the text \<open>nan\<close> before \<open>clean_text\<close> sees them.
\<close>

definition clean_column :: "unicode \<Rightarrow> pystr \<Rightarrow> frame \<Rightarrow> frame" where
  "clean_column u col df =
     (if col \<in> set (columns df) then
        df\<lparr>rows := map (\<lambda>(i, row).
               (i, map (\<lambda>(k, v). if k = col then (k, PStr (clean_text u (Some (str v)))) else (k, v)) row))
             (rows df)\<rparr>
      else df)"

definition clean_columns :: "unicode \<Rightarrow> frame \<Rightarrow> frame" where
  "clean_columns u df =
     clean_column u (py ''answer'') (clean_column u (py ''body'') (clean_column u (py ''question'') df))"

text \<open>
  Step 3: \<open>df.drop_duplicates(subset=[col], inplace=True)\<close>. pandas returns at once on an
  empty frame (no rows or no columns), raises \<open>KeyError\<close> for a column that is not
  there, and otherwise keeps the first row of each value of the column, index labels
  unchanged. Cells compare as the values they hold, NaN equal to NaN.
\<close>

datatype error = JSONDecodeError | KeyError pystr | UnicodeEncodeError

definition drop_duplicates :: "pystr \<Rightarrow> frame \<Rightarrow> error + frame" where
  "drop_duplicates col df =
     (if rows df = [] \<or> columns df = [] then Inr df
      else if col \<notin> set (columns df) then Inl (KeyError col)
      else Inr (df\<lparr>rows := first_seen [] (\<lambda>(i, row). map_of row col) (rows df)\<rparr>))"

text \<open>
  Step 4: \<open>df["reason"] = df.apply(categorize_unclean, axis=1)\<close>. The new column goes
  last, or replaces a column of that name. (On a frame without rows or without columns
  pandas does not call the function row by row; such a frame has no \<open>answer\<close> column,
  and Step 5 raises before the column is read.)
\<close>

definition assign_reason :: "unicode \<Rightarrow> int \<Rightarrow> frame \<Rightarrow> frame" where
  "assign_reason u m df =
     \<lparr>columns = (if py ''reason'' \<in> set (columns df) then columns df
                 else columns df @ [py ''reason'']),
      rows = map (\<lambda>(i, row). (i, AList.update (py ''reason'') (PStr (categorize_unclean u m row)) row))
               (rows df)\<rparr>"

text \<open>
  Step 5, the mask of one row. On an object column the \<open>.str\<close> methods give NaN for a
  cell that is not a string, \<open>NaN != ""\<close> is true and \<open>NaN >= m\<close> is false.
  \<open>.str.len()\<close> is the length of the cell as it is, not of the stripped cell.
\<close>

definition notna :: "pyval \<Rightarrow> bool" where
  "notna v = (case v of PStr s \<Rightarrow> True | _ \<Rightarrow> False)"

definition clean_mask :: "unicode \<Rightarrow> int \<Rightarrow> series \<Rightarrow> bool" where
  "clean_mask u m row =
     (let reason = get row (py ''reason'') PNaN;
          answer = get row (py ''answer'') PNaN
      in reason = PStr (py ''Other'')
         \<and> notna answer
         \<and> (case answer of PStr s \<Rightarrow> strip u s \<noteq> [] | _ \<Rightarrow> True)
         \<and> (case answer of PStr s \<Rightarrow> m \<le> int (length s) | _ \<Rightarrow> False))"

text \<open>
  Steps 5 and 6: \<open>clean_df = df[mask]\<close> and
  \<open>unclean_df = df[~df.index.isin(clean_df.index)]\<close>. Reading a column that is not there
  raises \<open>KeyError\<close>; the mask reads \<open>reason\<close> first, then \<open>answer\<close>.
\<close>

definition clean_unclean :: "unicode \<Rightarrow> int \<Rightarrow> frame \<Rightarrow> error + frame \<times> frame" where
  "clean_unclean u m df =
     (if py ''reason'' \<notin> set (columns df) then Inl (KeyError (py ''reason''))
      else if py ''answer'' \<notin> set (columns df) then Inl (KeyError (py ''answer''))
      else
        (let clean_df = df\<lparr>rows := filter (\<lambda>(i, row). clean_mask u m row) (rows df)\<rparr>;
             unclean_df = df\<lparr>rows := filter (\<lambda>(i, row). i \<notin> set (map fst (rows clean_df))) (rows df)\<rparr>
         in Inr (clean_df, unclean_df)))"

text \<open>Steps 2 to 4 on the parsed records: the classified, deduplicated frame.\<close>

definition classified :: "unicode \<Rightarrow> int \<Rightarrow> series list \<Rightarrow> error + frame" where
  "classified u m data =
     (case drop_duplicates (py ''url'') (clean_columns u (DataFrame data)) of
        Inl e \<Rightarrow> Inl e
      | Inr df \<Rightarrow> Inr (assign_reason u m df))"

text \<open>
  Step 7: \<open>df.to_csv(path, index=False, encoding="utf-8")\<close>. The file is a frame: its
  header and the rows written. UTF-8 has no encoding for a surrogate code point
  (U+D800 to U+DFFF), which \<open>json.load\<close> accepts from an escape. The header and then
  each row go to the file as one write; the first write that holds a surrogate raises
  \<open>UnicodeEncodeError\<close>, and the file keeps what was written before it: nothing when
  the header fails, else the header and the rows ahead of the failing one. \<open>None\<close> and
  NaN are written as empty fields.
\<close>

definition encodable :: "pystr \<Rightarrow> bool" where
  "encodable s = list_all (\<lambda>c. c < 55296 \<or> 57343 < c) s"

definition row_encodable :: "series \<Rightarrow> bool" where
  "row_encodable row = list_all (\<lambda>(k, v). case v of PStr s \<Rightarrow> encodable s | _ \<Rightarrow> True) row"

definition to_csv :: "frame \<Rightarrow> error option \<times> frame" where
  "to_csv df =
     (if list_ex (\<lambda>k. \<not> encodable k) (columns df)
        then (Some UnicodeEncodeError, \<lparr>columns = [], rows = []\<rparr>)
      else if list_all (\<lambda>(i, row). row_encodable row) (rows df) then (None, df)
      else (Some UnicodeEncodeError,
            df\<lparr>rows := takeWhile (\<lambda>(i, row). row_encodable row) (rows df)\<rparr>))"

text \<open>
  \<open>clean_dataset\<close> runs in a world of three files and a console. The raw file is
  missing, or holds text that \<open>json.load\<close> rejects, or holds an array of objects. The
  result is the exception that escaped, if any, and the world as the call left it.
  The summary lines are kept as the three counts and the reasons tallied by
  \<open>value_counts\<close>.
\<close>

datatype raw_content = Unparsable | Parsed "series list"

datatype message =
    RawNotFound
  | Loaded nat
  | Summary nat nat nat
  | Breakdown "pyval multiset"

record world =
  raw :: "raw_content option"
  clean_csv :: "frame option"
  unclean_csv :: "frame option"
  console :: "message list"

definition clean_dataset :: "unicode \<Rightarrow> config \<Rightarrow> world \<Rightarrow> error option \<times> world" where
  "clean_dataset u cfg w =
     (case raw w of
        None \<Rightarrow> (None, w\<lparr>console := console w @ [RawNotFound]\<rparr>)
      | Some Unparsable \<Rightarrow> (Some JSONDecodeError, w)
      | Some (Parsed data) \<Rightarrow>
          (let total_raw = length data;
               w1 = w\<lparr>console := console w @ [Loaded total_raw]\<rparr>
           in case classified u (MIN_ANSWER_LEN cfg) data of
                Inl e \<Rightarrow> (Some e, w1)
              | Inr df \<Rightarrow>
                  (case clean_unclean u (MIN_ANSWER_LEN cfg) df of
                     Inl e \<Rightarrow> (Some e, w1)
                   | Inr (clean_df, unclean_df) \<Rightarrow>
                       (case to_csv clean_df of
                          (Some e, clean_written) \<Rightarrow> (Some e, w1\<lparr>clean_csv := Some clean_written\<rparr>)
                        | (None, clean_written) \<Rightarrow>
                            (case to_csv unclean_df of
                               (Some e, unclean_written) \<Rightarrow>
                                 (Some e, w1\<lparr>clean_csv := Some clean_written,
                                             unclean_csv := Some unclean_written\<rparr>)
                             | (None, unclean_written) \<Rightarrow>
                                 (None,
                                  w1\<lparr>clean_csv := Some clean_written,
                                     unclean_csv := Some unclean_written,
                                     console := console w1 @
                                       [Summary total_raw (length (rows clean_df))
                                          (length (rows unclean_df)),
                                        Breakdown (mset (map (\<lambda>(i, row). get row (py ''reason'') PNaN)
                                                           (rows unclean_df)))]\<rparr>))))))"

text \<open>
  The clean partition as section 4.4 of the specification words it: reason \<open>Other\<close>, an
  answer that is not null, whose stripped text is not empty and at least \<open>m\<close> long.
\<close>

definition spec_clean :: "unicode \<Rightarrow> int \<Rightarrow> series \<Rightarrow> bool" where
  "spec_clean u m row =
     (map_of row (py ''reason'') = Some (PStr (py ''Other''))
      \<and> (case map_of row (py ''answer'') of
            Some (PStr s) \<Rightarrow> strip u s \<noteq> [] \<and> m \<le> int (length (strip u s))
          | _ \<Rightarrow> False))"

text \<open>
  A normalized answer, as Step 2 leaves every cell of the answer column: a string that
  \<open>strip\<close> does not change. A row without an answer cell, or with a null one, has
  nothing to normalize.
\<close>

definition answer_stripped :: "unicode \<Rightarrow> series \<Rightarrow> bool" where
  "answer_stripped u row =
     (case map_of row (py ''answer'') of Some (PStr s) \<Rightarrow> strip u s = s | _ \<Rightarrow> True)"

text \<open>
  A database that knows the code points below 256 and nothing else, for running the
  functions on concrete strings.
\<close>

definition latin1 :: unicode where
  "latin1 =
     \<lparr>uni_space = (\<lambda>c. c = 133 \<or> c = 160),
      uni_alnum = (\<lambda>c. c \<in> set [170, 178, 179, 181, 185, 186, 188, 189, 190]
                        \<or> (192 \<le> c \<and> c \<le> 255 \<and> c \<noteq> 215 \<and> c \<noteq> 247)),
      uni_lower = map (\<lambda>c. if 192 \<le> c \<and> c \<le> 222 \<and> c \<noteq> 215 then c + 32
                            else ascii_lower c)\<rparr>"

text \<open>
  A small run: three scraped records, the second with a null answer, the third repeating
  the url of the first. The frames are what Step 2 and Step 4 make of them; the
  configuration does not set the threshold.
\<close>

definition example_raw :: "series list" where
  "example_raw =
     [[(py ''url'', PStr (py ''https://a'')), (py ''answer'', PStr (py ''a  long&nbsp;enough answer''))],
      [(py ''url'', PStr (py ''https://b'')), (py ''answer'', PNone)],
      [(py ''url'', PStr (py ''https://a'')), (py ''answer'', PStr (py ''dup''))]]"

definition example_normalized :: frame where
  "example_normalized =
     \<lparr>columns = [py ''url'', py ''answer''],
      rows = [(0, [(py ''url'', PStr (py ''https://a'')), (py ''answer'', PStr (py ''a long enough answer''))]),
              (1, [(py ''url'', PStr (py ''https://b'')), (py ''answer'', PStr (py ''None''))]),
              (2, [(py ''url'', PStr (py ''https://a'')), (py ''answer'', PStr (py ''dup''))])]\<rparr>"

definition example_deduplicated :: frame where
  "example_deduplicated =
     \<lparr>columns = [py ''url'', py ''answer''],
      rows = [(0, [(py ''url'', PStr (py ''https://a'')), (py ''answer'', PStr (py ''a long enough answer''))]),
              (1, [(py ''url'', PStr (py ''https://b'')), (py ''answer'', PStr (py ''None''))])]\<rparr>"

definition example_classified :: frame where
  "example_classified =
     \<lparr>columns = [py ''url'', py ''answer'', py ''reason''],
      rows = [(0, [(py ''url'', PStr (py ''https://a'')), (py ''answer'', PStr (py ''a long enough answer'')),
                   (py ''reason'', PStr (py ''Other''))]),
              (1, [(py ''url'', PStr (py ''https://b'')), (py ''answer'', PStr (py ''None'')),
                   (py ''reason'', PStr (py ''No Answer''))])]\<rparr>"

definition example_world :: world where
  "example_world = \<lparr>raw = Some (Parsed example_raw), clean_csv = None, unclean_csv = None, console = []\<rparr>"

definition example_config :: config where
  "example_config = \<lparr>output_folder = py ''data'', raw_file = py ''raw_data.json'',
     clean_file = py ''clean.csv'', unclean_file = py ''unclean.csv'', min_answer_length = None\<rparr>"

definition example_clean :: frame where
  "example_clean =
     \<lparr>columns = [py ''url'', py ''answer'', py ''reason''],
      rows = [(0, [(py ''url'', PStr (py ''https://a'')), (py ''answer'', PStr (py ''a long enough answer'')),
                   (py ''reason'', PStr (py ''Other''))])]\<rparr>"

definition example_unclean :: frame where
  "example_unclean =
     \<lparr>columns = [py ''url'', py ''answer'', py ''reason''],
      rows = [(1, [(py ''url'', PStr (py ''https://b'')), (py ''answer'', PStr (py ''None'')),
                   (py ''reason'', PStr (py ''No Answer''))])]\<rparr>"

text \<open>
  A frame of normalized answers with reasons tagged by hand, so that each test of the
  mask decides a row: five rows tagged \<open>Other\<close> (a long answer, a short one, a null, NaN
  and the empty string) and a long answer tagged \<open>Too Short\<close>.
\<close>

definition example_tagged :: frame where
  "example_tagged =
     \<lparr>columns = [py ''answer'', py ''reason''],
      rows = [(0, [(py ''answer'', PStr (py ''a long enough answer'')), (py ''reason'', PStr (py ''Other''))]),
              (1, [(py ''answer'', PStr (py ''short'')), (py ''reason'', PStr (py ''Other''))]),
              (2, [(py ''answer'', PNone), (py ''reason'', PStr (py ''Other''))]),
              (3, [(py ''answer'', PNaN), (py ''reason'', PStr (py ''Other''))]),
              (4, [(py ''answer'', PStr []), (py ''reason'', PStr (py ''Other''))]),
              (5, [(py ''answer'', PStr (py ''a long enough answer'')), (py ''reason'', PStr (py ''Too Short''))])]\<rparr>"

section \<open>Properties of \<open>clean_text\<close>\<close>

subsection \<open>The classes of the code points the patterns name\<close>

lemma isspace_32: "isspace u 32"
  by (simp add: isspace_def ascii_space_def)

lemma not_isword_32: "\<not> isword u 32"
  by (simp add: isword_def isalnum_def ascii_alnum_def)

lemma not_isword_38: "\<not> isword u 38"
  by (simp add: isword_def isalnum_def ascii_alnum_def)

lemma not_isword_59: "\<not> isword u 59"
  by (simp add: isword_def isalnum_def ascii_alnum_def)

subsection \<open>Where the entity pattern matches\<close>

lemma match_entity_iff:
  "match_entity u s = Some rest \<longleftrightarrow>
     (\<exists>w. s = 38 # w @ 59 # rest \<and> w \<noteq> [] \<and> list_all (isword u) w)"
proof
  assume m: "match_entity u s = Some rest"
  then obtain cs where s: "s = 38 # cs"
    by (cases s) (auto simp: match_entity_def split: if_splits)
  from m s have w: "takeWhile (isword u) cs \<noteq> []"
    and d: "dropWhile (isword u) cs = 59 # rest"
    by (auto simp: match_entity_def split: if_splits list.splits)
  have "cs = takeWhile (isword u) cs @ dropWhile (isword u) cs" by simp
  with d have "cs = takeWhile (isword u) cs @ 59 # rest" by simp
  moreover have "list_all (isword u) (takeWhile (isword u) cs)"
    by (simp add: list_all_iff) (meson set_takeWhileD)
  ultimately show "\<exists>w. s = 38 # w @ 59 # rest \<and> w \<noteq> [] \<and> list_all (isword u) w"
    using s w by blast
next
  assume "\<exists>w. s = 38 # w @ 59 # rest \<and> w \<noteq> [] \<and> list_all (isword u) w"
  then obtain w where s: "s = 38 # w @ 59 # rest" and w: "w \<noteq> []"
    and a: "list_all (isword u) w" by blast
  from a have t: "takeWhile (isword u) (w @ 59 # rest) = w"
    by (simp add: list_all_iff takeWhile_append2 not_isword_59)
  from a have d: "dropWhile (isword u) (w @ 59 # rest) = 59 # rest"
    by (simp add: list_all_iff dropWhile_append2 not_isword_59)
  show "match_entity u s = Some rest"
    using s w t d by (simp add: match_entity_def)
qed

lemma contains_entity_iff:
  "contains_entity u s \<longleftrightarrow>
     (\<exists>pre w post. s = pre @ 38 # w @ 59 # post \<and> w \<noteq> [] \<and> list_all (isword u) w)"
proof (induction s)
  case Nil
  then show ?case by simp
next
  case (Cons c cs)
  show ?case
  proof
    assume c: "contains_entity u (c # cs)"
    show "\<exists>pre w post. c # cs = pre @ 38 # w @ 59 # post \<and> w \<noteq> [] \<and> list_all (isword u) w"
    proof (cases "match_entity u (c # cs)")
      case None
      with c have "contains_entity u cs" by simp
      with Cons.IH obtain pre w post where
        "cs = pre @ 38 # w @ 59 # post" "w \<noteq> []" "list_all (isword u) w" by blast
      then have "c # cs = (c # pre) @ 38 # w @ 59 # post \<and> w \<noteq> [] \<and> list_all (isword u) w"
        by simp
      then show ?thesis by blast
    next
      case (Some rest)
      then obtain w where "c # cs = [] @ 38 # w @ 59 # rest" "w \<noteq> []" "list_all (isword u) w"
        unfolding match_entity_iff by auto
      then show ?thesis by blast
    qed
  next
    assume "\<exists>pre w post. c # cs = pre @ 38 # w @ 59 # post \<and> w \<noteq> [] \<and> list_all (isword u) w"
    then obtain pre w post where e: "c # cs = pre @ 38 # w @ 59 # post"
      and w: "w \<noteq> []" "list_all (isword u) w" by blast
    show "contains_entity u (c # cs)"
    proof (cases pre)
      case Nil
      with e w have "match_entity u (c # cs) = Some post"
        unfolding match_entity_iff by auto
      then show ?thesis by simp
    next
      case (Cons p pre')
      with e have "cs = pre' @ 38 # w @ 59 # post" by simp
      with w Cons.IH have "contains_entity u cs" by blast
      then show ?thesis by (simp split: option.splits)
    qed
  qed
qed

lemma contains_entity_embed:
  "contains_entity u t \<Longrightarrow> contains_entity u (a @ t @ b)"
proof -
  assume "contains_entity u t"
  then obtain pre w post where "t = pre @ 38 # w @ 59 # post" "w \<noteq> []" "list_all (isword u) w"
    unfolding contains_entity_iff by blast
  then have "a @ t @ b = (a @ pre) @ 38 # w @ 59 # (post @ b) \<and> w \<noteq> [] \<and> list_all (isword u) w"
    by simp
  then show ?thesis unfolding contains_entity_iff by blast
qed


subsection \<open>The two substitutions\<close>

text \<open>Both substitutions leave a code point in place or put a space.\<close>

lemma sub_entity_word_prefix:
  "sub_entity u cs = w @ 59 # post \<Longrightarrow> list_all (isword u) w \<Longrightarrow> \<exists>post'. cs = w @ 59 # post'"
proof (induction w arbitrary: cs)
  case Nil
  then obtain c cs' where cs: "cs = c # cs'" by (cases cs) auto
  with Nil show ?case by (auto split: option.splits)
next
  case (Cons a w)
  then obtain c cs' where cs: "cs = c # cs'" by (cases cs) auto
  from Cons.prems have a: "a \<noteq> 32" using not_isword_32 by auto
  from Cons.prems cs a have "c = a" and "sub_entity u cs' = w @ 59 # post"
    by (auto split: option.splits)
  with Cons.IH Cons.prems cs show ?case by auto
qed

lemma sub_space_word_prefix:
  "sub_space u cs = w @ 59 # post \<Longrightarrow> list_all (isword u) w \<Longrightarrow> \<exists>post'. cs = w @ 59 # post'"
proof (induction w arbitrary: cs)
  case Nil
  then obtain c cs' where cs: "cs = c # cs'" by (cases cs) auto
  with Nil show ?case by (auto split: if_splits)
next
  case (Cons a w)
  then obtain c cs' where cs: "cs = c # cs'" by (cases cs) auto
  from Cons.prems have a: "a \<noteq> 32" using not_isword_32 by auto
  from Cons.prems cs a have "c = a" and "sub_space u cs' = w @ 59 # post"
    by (auto split: if_splits)
  with Cons.IH Cons.prems cs show ?case by auto
qed

lemma match_after_sub_entity:
  "match_entity u (c # sub_entity u cs) = Some r \<Longrightarrow> \<exists>r'. match_entity u (c # cs) = Some r'"
  unfolding match_entity_iff using sub_entity_word_prefix by fastforce

lemma match_after_sub_space:
  "match_entity u (c # sub_space u cs) = Some r \<Longrightarrow> \<exists>r'. match_entity u (c # cs) = Some r'"
  unfolding match_entity_iff using sub_space_word_prefix by fastforce

lemma match_entity_32: "match_entity u (32 # cs) = None"
  by (simp add: match_entity_def)

lemma sub_entity_clean: "\<not> contains_entity u (sub_entity u s)"
proof (induction u s rule: sub_entity.induct)
  case (1 u)
  then show ?case by simp
next
  case (2 u c cs)
  show ?case
  proof (cases "match_entity u (c # cs)")
    case None
    with 2 have ih: "\<not> contains_entity u (sub_entity u cs)" by simp
    have "match_entity u (c # sub_entity u cs) = None"
      using None match_after_sub_entity [of u c cs] by (cases "match_entity u (c # sub_entity u cs)") auto
    with ih None show ?thesis by simp
  next
    case (Some rest)
    with 2 have "\<not> contains_entity u (sub_entity u rest)" by simp
    with Some show ?thesis by (simp add: match_entity_32)
  qed
qed

lemma sub_entity_id: "\<not> contains_entity u s \<Longrightarrow> sub_entity u s = s"
  by (induction s) (auto split: option.splits)

lemma sub_space_keeps_clean:
  "contains_entity u (sub_space u s) \<Longrightarrow> contains_entity u s"
proof (induction u s rule: sub_space.induct)
  case (1 u)
  then show ?case by simp
next
  case (2 u c cs)
  show ?case
  proof (cases "isspace u c")
    case True
    with 2 have "contains_entity u (sub_space u (dropWhile (isspace u) cs))"
      by (simp add: match_entity_32)
    with 2 True have "contains_entity u (dropWhile (isspace u) cs)" by simp
    then have "contains_entity u ((c # takeWhile (isspace u) cs) @ dropWhile (isspace u) cs @ [])"
      by (rule contains_entity_embed)
    then show ?thesis by simp
  next
    case False
    show ?thesis
    proof (cases "match_entity u (c # sub_space u cs)")
      case None
      with 2 False show ?thesis by (auto split: option.splits)
    next
      case (Some r)
      then obtain r' where "match_entity u (c # cs) = Some r'"
        using match_after_sub_space by blast
      then show ?thesis by simp
    qed
  qed
qed

subsection \<open>\<open>strip\<close> keeps a middle part of the string\<close>

lemma lstrip_decomp: "s = takeWhile (isspace u) s @ lstrip u s"
  by (simp add: lstrip_def)

lemma rstrip_decomp: "s = rstrip u s @ rev (takeWhile (isspace u) (rev s))"
proof -
  have "rev (dropWhile (isspace u) (rev s)) @ rev (takeWhile (isspace u) (rev s)) =
        rev (takeWhile (isspace u) (rev s) @ dropWhile (isspace u) (rev s))"
    by (simp only: rev_append)
  also have "\<dots> = s" by simp
  finally show ?thesis by (simp add: rstrip_def)
qed

lemma strip_decomp: "\<exists>a b. s = a @ strip u s @ b"
proof -
  have "s = takeWhile (isspace u) s @ strip u s @ rev (takeWhile (isspace u) (rev (lstrip u s)))"
    using lstrip_decomp [of s u] rstrip_decomp [of "lstrip u s" u] by (simp add: strip_def)
  then show ?thesis by blast
qed

lemma strip_keeps_clean: "contains_entity u (strip u s) \<Longrightarrow> contains_entity u s"
proof -
  assume c: "contains_entity u (strip u s)"
  obtain a b where s: "s = a @ strip u s @ b" using strip_decomp by blast
  from c have "contains_entity u (a @ strip u s @ b)" by (rule contains_entity_embed)
  with s show ?thesis by simp
qed


subsection \<open>Single spaces between words\<close>

lemma tidy_tl: "tidy u (c # cs) \<Longrightarrow> tidy u cs"
  by (cases cs) auto

lemma tidy_Cons_nonspace: "\<not> isspace u c \<Longrightarrow> tidy u (c # cs) = tidy u cs"
  by (cases cs) auto

lemma tidy_Cons_32:
  "tidy u (32 # cs) = ((case cs of [] \<Rightarrow> True | d # ds \<Rightarrow> \<not> isspace u d) \<and> tidy u cs)"
  by (cases cs) (auto simp: isspace_32)

lemma tidy_append: "tidy u (xs @ ys) \<Longrightarrow> tidy u xs \<and> tidy u ys"
proof (induction u xs rule: tidy.induct)
  case (1 u)
  then show ?case by simp
next
  case (2 u c)
  then show ?case by (cases ys) (auto split: if_splits)
next
  case (3 u c d cs)
  then show ?case by (auto split: if_splits)
qed

lemma dropWhile_head: "dropWhile P xs = d # ds \<Longrightarrow> \<not> P d"
  using hd_dropWhile [of P xs] by auto

lemma sub_space_tidy: "tidy u (sub_space u s)"
proof (induction u s rule: sub_space.induct)
  case (1 u)
  then show ?case by simp
next
  case (2 u c cs)
  show ?case
  proof (cases "isspace u c")
    case True
    let ?r = "dropWhile (isspace u) cs"
    from 2 True have ih: "tidy u (sub_space u ?r)" by simp
    have "case sub_space u ?r of [] \<Rightarrow> True | d # ds \<Rightarrow> \<not> isspace u d"
    proof (cases ?r)
      case Nil
      then have "sub_space u ?r = sub_space u []" by (rule arg_cong)
      then have "sub_space u ?r = []" by simp
      then show ?thesis by simp
    next
      case (Cons e r')
      then have "\<not> isspace u e" by (rule dropWhile_head)
      with Cons show ?thesis by simp
    qed
    with ih True show ?thesis by (simp add: tidy_Cons_32)
  next
    case False
    with 2 show ?thesis by (simp add: tidy_Cons_nonspace)
  qed
qed

lemma sub_space_id: "tidy u s \<Longrightarrow> sub_space u s = s"
proof (induction u s rule: tidy.induct)
  case (1 u)
  then show ?case by simp
next
  case (2 u c)
  then show ?case by (auto split: if_splits)
next
  case (3 u c d cs)
  then show ?case by (auto split: if_splits)
qed

lemma tidy_no_ws_run: "tidy u s \<Longrightarrow> \<not> ws_run u s"
  by (induction u s rule: tidy.induct) (auto split: if_splits)

lemma strip_tidy: "tidy u s \<Longrightarrow> tidy u (strip u s)"
proof -
  assume t: "tidy u s"
  obtain a b where s: "s = a @ strip u s @ b" using strip_decomp by blast
  with t have "tidy u (a @ strip u s @ b)" by simp
  then have "tidy u (strip u s @ b)" using tidy_append by blast
  then show ?thesis using tidy_append by blast
qed

subsection \<open>The ends of a stripped string\<close>

lemma rstrip_last: "rstrip u s = [] \<or> \<not> isspace u (last (rstrip u s))"
proof (cases "dropWhile (isspace u) (rev s)")
  case Nil
  then show ?thesis by (simp add: rstrip_def)
next
  case (Cons d ds)
  then have "\<not> isspace u d" by (rule dropWhile_head)
  with Cons show ?thesis by (simp add: rstrip_def)
qed

lemma rstrip_hd: "rstrip u s \<noteq> [] \<Longrightarrow> hd (rstrip u s) = hd s"
proof -
  assume n: "rstrip u s \<noteq> []"
  have "hd s = hd (rstrip u s @ rev (takeWhile (isspace u) (rev s)))"
    using rstrip_decomp [of s u] by simp
  with n show ?thesis by simp
qed

lemma strip_edges: "\<not> edge_space u (strip u s)"
proof (cases "strip u s")
  case Nil
  then show ?thesis by (simp add: edge_space_def)
next
  case (Cons c cs)
  then have n: "rstrip u (lstrip u s) \<noteq> []" by (simp add: strip_def)
  then have l: "lstrip u s \<noteq> []" by (auto simp: rstrip_def)
  then obtain d ds where d: "dropWhile (isspace u) s = d # ds"
    by (cases "dropWhile (isspace u) s") (auto simp: lstrip_def)
  then have "\<not> isspace u d" by (rule dropWhile_head)
  moreover have "hd (strip u s) = d"
    using rstrip_hd [OF n] d by (simp add: strip_def lstrip_def)
  moreover have "\<not> isspace u (last (strip u s))"
    using rstrip_last [of u "lstrip u s"] n by (simp add: strip_def)
  ultimately show ?thesis using Cons by (simp add: edge_space_def)
qed

lemma strip_id: "\<not> edge_space u s \<Longrightarrow> strip u s = s"
proof (cases s)
  case Nil
  then show ?thesis by (simp add: strip_def lstrip_def rstrip_def)
next
  case (Cons c cs)
  assume "\<not> edge_space u s"
  with Cons have c: "\<not> isspace u c" and l: "\<not> isspace u (last s)"
    by (auto simp: edge_space_def)
  from c Cons have 1: "lstrip u s = s" by (simp add: lstrip_def)
  from Cons obtain x xs where r: "rev s = x # xs" by (cases "rev s") auto
  from Cons have "hd (rev s) = last s" by (simp add: hd_rev)
  with r l have "\<not> isspace u x" by simp
  then have "dropWhile (isspace u) (x # xs) = x # xs" by simp
  with r have "rev (dropWhile (isspace u) (rev s)) = rev (rev s)" by (simp only:)
  then have "rstrip u s = s" by (simp add: rstrip_def)
  with 1 show ?thesis by (simp add: strip_def)
qed

subsection \<open>The normal form and its fixed point\<close>

lemma clean_text_normal:
  "\<not> contains_entity u (clean_text u t) \<and> tidy u (clean_text u t) \<and> \<not> edge_space u (clean_text u t)"
proof (cases t)
  case None
  then show ?thesis by (simp add: clean_text_def edge_space_def)
next
  case (Some s)
  show ?thesis
  proof (cases "s = []")
    case True
    with Some show ?thesis by (simp add: clean_text_def edge_space_def)
  next
    case False
    let ?a = "sub_entity u s"
    let ?b = "sub_space u ?a"
    have ct: "clean_text u t = strip u ?b" using Some False by (simp add: clean_text_def)
    have "\<not> contains_entity u ?a" by (rule sub_entity_clean)
    then have "\<not> contains_entity u ?b" using sub_space_keeps_clean by blast
    then have 1: "\<not> contains_entity u (strip u ?b)" using strip_keeps_clean by blast
    have "tidy u ?b" by (rule sub_space_tidy)
    then have 2: "tidy u (strip u ?b)" by (rule strip_tidy)
    have 3: "\<not> edge_space u (strip u ?b)" by (rule strip_edges)
    from 1 2 3 ct show ?thesis by simp
  qed
qed

lemma clean_text_fixpoint:
  "\<not> contains_entity u s \<Longrightarrow> tidy u s \<Longrightarrow> \<not> edge_space u s \<Longrightarrow> clean_text u (Some s) = s"
  by (simp add: clean_text_def sub_entity_id sub_space_id strip_id)

text \<open>
  Claim C8. For every input of \<open>clean_text\<close>, a string or \<open>None\<close>, the output contains
  no substring matching \<open>&\w+;\<close>, no two adjacent whitespace code points, and no
  whitespace at its start or end; \<open>None\<close> and the empty string give the empty string.
  The entity test is spelled out: no split of the output puts an ampersand, a non-empty
  run of word characters and a semicolon in a row.
\<close>

theorem clean_text_guarantees:
  "\<not> contains_entity u (clean_text u t)
   \<and> (\<nexists>pre w post. clean_text u t = pre @ 38 # w @ 59 # post \<and> w \<noteq> [] \<and> list_all (isword u) w)
   \<and> \<not> ws_run u (clean_text u t)
   \<and> \<not> edge_space u (clean_text u t)
   \<and> clean_text u None = []
   \<and> clean_text u (Some []) = []"
proof -
  have n: "\<not> contains_entity u (clean_text u t)" "tidy u (clean_text u t)"
    "\<not> edge_space u (clean_text u t)"
    using clean_text_normal [of u t] by simp_all
  from n(1) have "\<nexists>pre w post. clean_text u t = pre @ 38 # w @ 59 # post \<and> w \<noteq> [] \<and> list_all (isword u) w"
    unfolding contains_entity_iff by simp
  moreover from n(2) have "\<not> ws_run u (clean_text u t)" by (rule tidy_no_ws_run)
  moreover have "clean_text u None = []" "clean_text u (Some []) = []"
    by (simp_all add: clean_text_def)
  ultimately show ?thesis using n by simp
qed

theorem clean_text_guarantees_witness:
  "clean_text latin1 (Some (py ''  a&nbsp;b   c &amp ; ''))  = py ''a b c &amp ;''
   \<and> \<not> contains_entity latin1 (py ''a b c &amp ;'')
   \<and> \<not> ws_run latin1 (py ''a b c &amp ;'')
   \<and> \<not> edge_space latin1 (py ''a b c &amp ;'')"
proof -
  have e: "clean_text latin1 (Some (py ''  a&nbsp;b   c &amp ; ''))  = py ''a b c &amp ;''"
    by (simp add: py_def clean_text_def match_entity_def isword_def isalnum_def ascii_alnum_def
        isspace_def ascii_space_def strip_def lstrip_def rstrip_def)
  show ?thesis
    using clean_text_guarantees [of latin1 "Some (py ''  a&nbsp;b   c &amp ; '')"]
    unfolding e by (simp add: e)
qed

text \<open>
  Claim C3. \<open>clean_text\<close> is idempotent: applying it to its own output gives that output
  again, for every string (and for \<open>None\<close>).
\<close>

theorem clean_text_idempotent:
  "clean_text u (Some (clean_text u (Some s))) = clean_text u (Some s)
   \<and> clean_text u (Some (clean_text u None)) = clean_text u None"
  using clean_text_normal [of u "Some s"] clean_text_normal [of u None]
  by (simp add: clean_text_fixpoint)

section \<open>Properties of the classifier\<close>

lemma reason_strs_distinct:
  "distinct [py ''No Answer'', py ''Malformed Entry'', py ''Too Short'', py ''Other'']"
  by (simp add: py_def)

lemma lower_Nil: "lower u [] = []"
  by (simp add: lower_def)

lemma strip_None: "strip u (py ''None'') = py ''None''"
  by (simp add: py_def strip_def lstrip_def rstrip_def isspace_def ascii_space_def)

lemma lower_None: "lower u (py ''None'') = py ''none''"
  by (simp add: py_def lower_def ascii_lower_def)

lemma strip_nan: "strip u (py ''nan'') = py ''nan''"
  by (simp add: py_def strip_def lstrip_def rstrip_def isspace_def ascii_space_def)

lemma lower_nan: "lower u (py ''nan'') = py ''nan''"
  by (simp add: py_def lower_def ascii_lower_def)

lemma startswith_https: "startswith s (py ''https'') = (take 5 s = py ''https'')"
proof -
  have "length (py ''https'') = 5" by (simp add: py_def)
  then show ?thesis by (simp only: startswith_def)
qed

lemma categorize_unclean_classify:
  "categorize_unclean u m row =
     reason_str (classify u m (map_of row (py ''answer'')) (map_of row (py ''url'')))"
proof (cases "map_of row (py ''url'')")
  case None
  then show ?thesis
    by (simp add: categorize_unclean_def classify_def get_def reason_str_def Let_def
        startswith_https)
       (simp add: py_def)
next
  case (Some v)
  then show ?thesis
    by (cases v)
       (simp_all add: categorize_unclean_def classify_def get_def reason_str_def Let_def
        startswith_https)
qed

text \<open>
  Claim C1. \<open>categorize_unclean\<close> returns, for every row, the reason that the four rules of
  the specification give when tried in order (\<open>classify\<close>): \<open>No Answer\<close> when the stripped,
  lowercased answer is empty, \<open>none\<close> or \<open>nan\<close>; else \<open>Malformed Entry\<close> when the url is not
  a string or does not begin with \<open>https\<close>; else \<open>Too Short\<close> when the stripped answer is
  shorter than the threshold; else \<open>Other\<close>. The result is one of these four strings, which
  differ from one another. The row with url \<open>https://x\<close>, an empty answer and question \<open>q\<close>
  gets \<open>No Answer\<close>, and the threshold is 15 when the configuration does not set it.
\<close>

theorem categorize_unclean_rules:
  "categorize_unclean u m row =
     reason_str (classify u m (map_of row (py ''answer'')) (map_of row (py ''url'')))
   \<and> categorize_unclean u m row \<in>
       set [py ''No Answer'', py ''Malformed Entry'', py ''Too Short'', py ''Other'']
   \<and> distinct [py ''No Answer'', py ''Malformed Entry'', py ''Too Short'', py ''Other'']
   \<and> categorize_unclean u m
         [(py ''url'', PStr (py ''https://x'')), (py ''answer'', PStr (py '''')),
          (py ''question'', PStr (py ''q''))] = py ''No Answer''
   \<and> MIN_ANSWER_LEN (cfg\<lparr>min_answer_length := None\<rparr>) = 15"
proof -
  have 1: "categorize_unclean u m row =
     reason_str (classify u m (map_of row (py ''answer'')) (map_of row (py ''url'')))"
    by (rule categorize_unclean_classify)
  have 2: "categorize_unclean u m row \<in>
       set [py ''No Answer'', py ''Malformed Entry'', py ''Too Short'', py ''Other'']"
    unfolding 1
    by (cases "classify u m (map_of row (py ''answer'')) (map_of row (py ''url''))")
       (simp_all add: reason_str_def)
  have 3: "categorize_unclean u m
         [(py ''url'', PStr (py ''https://x'')), (py ''answer'', PStr (py '''')),
          (py ''question'', PStr (py ''q''))] = py ''No Answer''"
    by (simp add: categorize_unclean_def get_def py_def str_def strip_def lstrip_def rstrip_def
        lower_def)
  have 4: "MIN_ANSWER_LEN (cfg\<lparr>min_answer_length := None\<rparr>) = 15"
    by (simp add: MIN_ANSWER_LEN_def)
  from 1 2 3 4 reason_strs_distinct show ?thesis by blast
qed


theorem categorize_unclean_rules_witness:
  "categorize_unclean latin1 15
     [(py ''url'', PStr (py ''ftp://x'')), (py ''answer'', PStr (py ''a valid full answer here'')),
      (py ''question'', PStr (py ''q''))] = py ''Malformed Entry''
   \<and> classify latin1 15 (Some (PStr (py ''a valid full answer here''))) (Some (PStr (py ''ftp://x'')))
       = Malformed_Entry
   \<and> categorize_unclean latin1 15
     [(py ''url'', PStr (py ''https://x'')), (py ''answer'', PStr (py ''short''))] = py ''Too Short''
   \<and> categorize_unclean latin1 15
     [(py ''url'', PStr (py ''https://x'')),
      (py ''answer'', PStr (py ''this is a sufficiently long answer text''))] = py ''Other''"
proof -
  have c: "classify latin1 15 (Some (PStr (py ''a valid full answer here''))) (Some (PStr (py ''ftp://x'')))
       = Malformed_Entry"
    by (simp add: classify_def py_def str_def strip_def lstrip_def rstrip_def lower_def
        isspace_def ascii_space_def ascii_lower_def)
  have a: "categorize_unclean latin1 15
     [(py ''url'', PStr (py ''ftp://x'')), (py ''answer'', PStr (py ''a valid full answer here'')),
      (py ''question'', PStr (py ''q''))] = py ''Malformed Entry''"
    using categorize_unclean_rules [of latin1 15
      "[(py ''url'', PStr (py ''ftp://x'')), (py ''answer'', PStr (py ''a valid full answer here'')),
        (py ''question'', PStr (py ''q''))]"] c
    by (simp add: reason_str_def py_def)
  have s: "categorize_unclean latin1 15
     [(py ''url'', PStr (py ''https://x'')), (py ''answer'', PStr (py ''short''))] = py ''Too Short''"
    by (simp add: categorize_unclean_def get_def py_def str_def strip_def lstrip_def rstrip_def
        lower_def isspace_def ascii_space_def ascii_lower_def startswith_def)
  have t: "categorize_unclean latin1 15
     [(py ''url'', PStr (py ''https://x'')),
      (py ''answer'', PStr (py ''this is a sufficiently long answer text''))] = py ''Other''"
    by (simp add: categorize_unclean_def get_def py_def str_def strip_def lstrip_def rstrip_def
        lower_def isspace_def ascii_space_def ascii_lower_def startswith_def)
  from a c s t show ?thesis by simp
qed

text \<open>
  Claim C9. The classifier reads the answer and the url only: two rows that agree on
  these two fields get the same reason, whatever their other fields hold or lack. In
  particular, removing the question from a row does not change its reason.
\<close>

theorem categorize_unclean_reads_answer_and_url:
  assumes "map_of row (py ''answer'') = map_of row' (py ''answer'')"
    and "map_of row (py ''url'') = map_of row' (py ''url'')"
  shows "categorize_unclean u m row = categorize_unclean u m row'
         \<and> categorize_unclean u m (AList.delete (py ''question'') row) = categorize_unclean u m row"
proof -
  have "py ''answer'' \<noteq> py ''question''" "py ''url'' \<noteq> py ''question''"
    by (simp_all add: py_def)
  then have "categorize_unclean u m (AList.delete (py ''question'') row) = categorize_unclean u m row"
    by (simp add: categorize_unclean_classify delete_conv')
  with assms show ?thesis by (simp add: categorize_unclean_classify)
qed

theorem categorize_unclean_reads_answer_and_url_witness:
  "categorize_unclean latin1 15
     [(py ''url'', PStr (py ''https://x'')), (py ''question'', PStr (py ''q'')),
      (py ''body'', PStr (py ''b'')), (py ''answer'', PStr (py ''short''))]
   = categorize_unclean latin1 15
     [(py ''answer'', PStr (py ''short'')), (py ''votes'', PNone),
      (py ''url'', PStr (py ''https://x''))]"
proof -
  have "map_of [(py ''url'', PStr (py ''https://x'')), (py ''question'', PStr (py ''q'')),
      (py ''body'', PStr (py ''b'')), (py ''answer'', PStr (py ''short''))] (py ''answer'')
    = map_of [(py ''answer'', PStr (py ''short'')), (py ''votes'', PNone),
      (py ''url'', PStr (py ''https://x''))] (py ''answer'')"
    by (simp add: py_def)
  moreover have "map_of [(py ''url'', PStr (py ''https://x'')), (py ''question'', PStr (py ''q'')),
      (py ''body'', PStr (py ''b'')), (py ''answer'', PStr (py ''short''))] (py ''url'')
    = map_of [(py ''answer'', PStr (py ''short'')), (py ''votes'', PNone),
      (py ''url'', PStr (py ''https://x''))] (py ''url'')"
    by (simp add: py_def)
  ultimately show ?thesis
    using categorize_unclean_reads_answer_and_url by blast
qed

text \<open>
  Claim C10. A row whose answer is present and \<open>None\<close> gets \<open>No Answer\<close>: \<open>str\<close> turns the
  value into the text \<open>None\<close>, which is not empty, and its stripped, lowercased form is
  the literal \<open>none\<close> of the first rule.
\<close>

theorem categorize_unclean_null_answer:
  assumes "map_of row (py ''answer'') = Some PNone"
  shows "categorize_unclean u m row = py ''No Answer''
         \<and> str PNone = py ''None''
         \<and> strip u (str PNone) \<noteq> []
         \<and> lower u (strip u (str PNone)) = py ''none''"
proof -
  have "strip u (str PNone) \<noteq> []"
    by (simp add: str_def strip_None) (simp add: py_def)
  then show ?thesis
    using assms
    by (simp add: categorize_unclean_def get_def str_def strip_None lower_None)
qed

theorem categorize_unclean_null_answer_witness:
  "categorize_unclean latin1 15
     [(py ''url'', PStr (py ''https://x'')), (py ''answer'', PNone),
      (py ''question'', PStr (py ''q''))] = py ''No Answer''"
proof -
  have "map_of [(py ''url'', PStr (py ''https://x'')), (py ''answer'', PNone),
      (py ''question'', PStr (py ''q''))] (py ''answer'') = Some PNone"
    by (simp add: py_def)
  then show ?thesis
    using categorize_unclean_null_answer by blast
qed

section \<open>Properties of deduplication, the partition and the whole run\<close>

subsection \<open>First occurrences\<close>

lemma first_seen_snoc:
  "first_seen seen key (xs @ [x]) =
     first_seen seen key xs @ (if key x \<in> set seen \<union> key ` set xs then [] else [x])"
  by (induction xs arbitrary: seen) auto

lemma first_seen_nth:
  "first_seen [] key xs =
     map ((!) xs) (filter (\<lambda>i. \<forall>j<i. key (xs ! j) \<noteq> key (xs ! i)) [0..<length xs])"
proof (induction xs rule: rev_induct)
  case Nil
  then show ?case by simp
next
  case (snoc x xs)
  let ?n = "length xs"
  let ?ys = "xs @ [x]"
  have old: "filter (\<lambda>i. \<forall>j<i. key (?ys ! j) \<noteq> key (?ys ! i)) [0..<?n] =
             filter (\<lambda>i. \<forall>j<i. key (xs ! j) \<noteq> key (xs ! i)) [0..<?n]"
    by (rule filter_cong) (auto simp: nth_append)
  have new: "(\<forall>j<?n. key (?ys ! j) \<noteq> key (?ys ! ?n)) \<longleftrightarrow> key x \<notin> key ` set xs"
  proof
    assume a: "\<forall>j<?n. key (?ys ! j) \<noteq> key (?ys ! ?n)"
    show "key x \<notin> key ` set xs"
    proof
      assume "key x \<in> key ` set xs"
      then obtain j where "j < ?n" "key (xs ! j) = key x"
        by (auto simp: in_set_conv_nth)
      with a show False by (auto simp: nth_append)
    qed
  next
    assume "key x \<notin> key ` set xs"
    then show "\<forall>j<?n. key (?ys ! j) \<noteq> key (?ys ! ?n)"
      by (auto simp: nth_append) (metis imageI nth_mem)
  qed
  have m: "map ((!) ?ys) (filter (\<lambda>i. \<forall>j<i. key (xs ! j) \<noteq> key (xs ! i)) [0..<?n]) =
           map ((!) xs) (filter (\<lambda>i. \<forall>j<i. key (xs ! j) \<noteq> key (xs ! i)) [0..<?n])"
    by (rule map_cong) (auto simp: nth_append)
  show ?case
    using snoc.IH old new m by (simp add: first_seen_snoc)
qed

lemma first_seen_subseq: "subseq (first_seen seen key xs) xs"
  by (induction xs arbitrary: seen) auto

lemma first_seen_keys:
  "key ` set (first_seen seen key xs) = key ` set xs - set seen"
  by (induction xs arbitrary: seen) auto

lemma first_seen_distinct: "distinct (map key (first_seen seen key xs))"
proof (induction xs arbitrary: seen)
  case Nil
  then show ?case by simp
next
  case (Cons x xs)
  have "key x \<notin> key ` set (first_seen (key x # seen) key xs)"
    by (simp add: first_seen_keys)
  with Cons show ?case by simp
qed

lemma drop_duplicates_example:
  "drop_duplicates (py ''url'')
     (DataFrame [[(py ''url'', PStr (py ''a''))], [(py ''url'', PStr (py ''b''))],
                 [(py ''url'', PStr (py ''a''))]])
   = Inr \<lparr>columns = [py ''url''],
          rows = [(0, [(py ''url'', PStr (py ''a''))]), (1, [(py ''url'', PStr (py ''b''))])]\<rparr>"
  by (simp add: drop_duplicates_def DataFrame_def float_column_def get_def py_def
      enumerate_eq_zip upt_rec)

text \<open>
  Claim C5. Deduplication on a column the frame has keeps exactly the rows that no
  earlier row matches on that column: the result is the rows at the positions whose
  url differs from the url at every earlier position, in their original order
  (a subsequence of the input, rows unchanged), no url is left twice and none is lost.
  The three records with urls \<open>a\<close>, \<open>b\<close>, \<open>a\<close> give the rows for \<open>a\<close> and \<open>b\<close>.
\<close>

theorem drop_duplicates_first_occurrence:
  assumes "drop_duplicates col df = Inr df'" and "col \<in> set (columns df)"
  shows "rows df' = map ((!) (rows df))
            (filter (\<lambda>i. \<forall>j<i. map_of (snd (rows df ! j)) col \<noteq> map_of (snd (rows df ! i)) col)
               [0..<length (rows df)])
         \<and> subseq (rows df') (rows df)
         \<and> distinct (map (\<lambda>(i, row). map_of row col) (rows df'))
         \<and> (\<lambda>(i, row). map_of row col) ` set (rows df') = (\<lambda>(i, row). map_of row col) ` set (rows df)
         \<and> columns df' = columns df
         \<and> drop_duplicates (py ''url'')
              (DataFrame [[(py ''url'', PStr (py ''a''))], [(py ''url'', PStr (py ''b''))],
                          [(py ''url'', PStr (py ''a''))]])
            = Inr \<lparr>columns = [py ''url''],
                   rows = [(0, [(py ''url'', PStr (py ''a''))]), (1, [(py ''url'', PStr (py ''b''))])]\<rparr>"
proof (cases "rows df = []")
  case True
  with assms have "df' = df" by (simp add: drop_duplicates_def)
  with True drop_duplicates_example show ?thesis by simp
next
  case False
  let ?key = "\<lambda>(i, row). map_of row col"
  from assms have c: "columns df \<noteq> []" by auto
  with False assms have r: "rows df' = first_seen [] ?key (rows df)" and cs: "columns df' = columns df"
    by (auto simp: drop_duplicates_def)
  have k: "\<And>p. ?key p = map_of (snd p) col" by (simp add: case_prod_unfold)
  have 1: "rows df' = map ((!) (rows df))
            (filter (\<lambda>i. \<forall>j<i. map_of (snd (rows df ! j)) col \<noteq> map_of (snd (rows df ! i)) col)
               [0..<length (rows df)])"
    unfolding r first_seen_nth [of ?key "rows df"] k ..
  have 2: "subseq (rows df') (rows df)" unfolding r by (rule first_seen_subseq)
  have 3: "distinct (map ?key (rows df'))" unfolding r by (rule first_seen_distinct)
  have 4: "?key ` set (rows df') = ?key ` set (rows df)"
    unfolding r by (simp add: first_seen_keys)
  from 1 2 3 4 cs drop_duplicates_example show ?thesis by simp
qed


subsection \<open>Steps 5 and 6\<close>

lemma complement_by_index:
  assumes "distinct (map fst xs)"
  shows "filter (\<lambda>(i, row). i \<notin> set (map fst (filter Q xs))) xs = filter (\<lambda>x. \<not> Q x) xs"
proof (rule filter_cong)
  fix x assume x: "x \<in> set xs"
  have "fst x \<in> set (map fst (filter Q xs)) \<longleftrightarrow> Q x"
  proof
    assume "fst x \<in> set (map fst (filter Q xs))"
    then obtain y where y: "y \<in> set xs" "Q y" "fst y = fst x" by auto
    from assms have "inj_on fst (set xs)" by (simp add: distinct_map)
    with x y have "y = x" by (auto dest: inj_onD)
    with y show "Q x" by simp
  next
    assume "Q x"
    with x show "fst x \<in> set (map fst (filter Q xs))" by auto
  qed
  then show "(case x of (i, row) \<Rightarrow> i \<notin> set (map fst (filter Q xs))) = (\<not> Q x)"
    by (simp add: case_prod_unfold)
qed simp

lemma clean_unclean_rows:
  assumes "clean_unclean u m df = Inr (clean_df, unclean_df)"
  shows "rows clean_df = filter (\<lambda>(i, row). clean_mask u m row) (rows df)"
    and "rows unclean_df =
           filter (\<lambda>(i, row). i \<notin> set (map fst (filter (\<lambda>(i, row). clean_mask u m row) (rows df))))
             (rows df)"
    and "columns clean_df = columns df" and "columns unclean_df = columns df"
    and "py ''answer'' \<in> set (columns df)" and "py ''reason'' \<in> set (columns df)"
  using assms by (auto simp: clean_unclean_def Let_def split: if_splits)

lemma clean_unclean_complement:
  assumes "clean_unclean u m df = Inr (clean_df, unclean_df)" and "distinct (map fst (rows df))"
  shows "rows unclean_df = filter (\<lambda>x. \<not> (case x of (i, row) \<Rightarrow> clean_mask u m row)) (rows df)"
  using clean_unclean_rows(2) [OF assms(1)] complement_by_index [OF assms(2)] by simp

text \<open>
  Claim C2. When Steps 5 and 6 return on a frame whose index labels are distinct (as
  they are for every frame \<open>clean_dataset\<close> builds, lemma \<open>classified_frame\<close>), the clean
  and the unclean rows together are the rows of the frame, no row is in both, and each
  row is counted exactly once.
\<close>

theorem clean_unclean_partition:
  assumes "clean_unclean u m df = Inr (clean_df, unclean_df)"
    and "distinct (map fst (rows df))"
  shows "set (rows clean_df) \<union> set (rows unclean_df) = set (rows df)
         \<and> set (rows clean_df) \<inter> set (rows unclean_df) = {}
         \<and> mset (rows clean_df) + mset (rows unclean_df) = mset (rows df)"
proof -
  let ?P = "\<lambda>(i, row). clean_mask u m row"
  have c: "rows clean_df = filter ?P (rows df)"
    using assms(1) by (rule clean_unclean_rows)
  have n: "rows unclean_df = filter (\<lambda>x. \<not> ?P x) (rows df)"
    using assms by (rule clean_unclean_complement)
  have 1: "set (rows clean_df) \<union> set (rows unclean_df) = set (rows df)"
    unfolding c n by auto
  have 2: "set (rows clean_df) \<inter> set (rows unclean_df) = {}"
    unfolding c n by auto
  have 3: "mset (rows clean_df) + mset (rows unclean_df) = mset (rows df)"
    unfolding c n by (simp add: mset_filter)
  from 1 2 3 show ?thesis by simp
qed

subsection \<open>What the reason \<open>Other\<close> implies\<close>

lemma length_strip_le: "length (strip u s) \<le> length s"
proof -
  obtain a b where "s = a @ strip u s @ b" using strip_decomp by blast
  then have "length s = length a + length (strip u s) + length b"
    by (metis length_append add.assoc)
  then show ?thesis by simp
qed

lemma strip_Nil: "strip u [] = []"
  by (simp add: strip_def lstrip_def rstrip_def)

lemma other_answer:
  assumes "categorize_unclean u m row = py ''Other''"
  shows "\<exists>s. map_of row (py ''answer'') = Some (PStr s) \<and> strip u s \<noteq> []
             \<and> m \<le> int (length (strip u s))"
proof -
  let ?a = "strip u (str (get row (py ''answer'') (PStr [])))"
  have d: "py ''Other'' \<noteq> py ''No Answer''" "py ''Other'' \<noteq> py ''Malformed Entry''"
    "py ''Other'' \<noteq> py ''Too Short''"
    by (simp_all add: py_def)
  from assms d have l: "lower u ?a \<notin> set [[], py ''none'', py ''nan'']"
    and n: "\<not> int (length ?a) < m"
    by (auto simp: categorize_unclean_def Let_def split: if_splits)
  show ?thesis
  proof (cases "map_of row (py ''answer'')")
    case None
    with l show ?thesis by (simp add: get_def str_def strip_Nil lower_Nil)
  next
    case (Some v)
    show ?thesis
    proof (cases v)
      case PNone
      with Some l show ?thesis by (simp add: get_def str_def strip_None lower_None)
    next
      case PNaN
      with Some l show ?thesis by (simp add: get_def str_def strip_nan lower_nan)
    next
      case (PStr s)
      with Some l have "strip u s \<noteq> []" by (auto simp: get_def str_def lower_Nil)
      moreover from PStr Some n have "m \<le> int (length (strip u s))"
        by (simp add: get_def str_def)
      ultimately show ?thesis using PStr Some by simp
    qed
  qed
qed

lemma reason_cell:
  "map_of (AList.update (py ''reason'') v row) (py ''reason'') = Some v"
  "map_of (AList.update (py ''reason'') v row) (py ''answer'') = map_of row (py ''answer'')"
  by (simp_all add: update_conv' py_def)

lemma mask_iff_other:
  "clean_mask u m (AList.update (py ''reason'') (PStr (categorize_unclean u m row)) row)
     \<longleftrightarrow> categorize_unclean u m row = py ''Other''"
proof (cases "categorize_unclean u m row = py ''Other''")
  case True
  then obtain s where s: "map_of row (py ''answer'') = Some (PStr s)" "strip u s \<noteq> []"
    "m \<le> int (length (strip u s))"
    using other_answer by blast
  have "int (length (strip u s)) \<le> int (length s)" using length_strip_le [of u s] by simp
  with s True show ?thesis
    by (simp add: clean_mask_def get_def notna_def reason_cell)
next
  case False
  then show ?thesis by (simp add: clean_mask_def get_def reason_cell)
qed

lemma spec_iff_other:
  "spec_clean u m (AList.update (py ''reason'') (PStr (categorize_unclean u m row)) row)
     \<longleftrightarrow> categorize_unclean u m row = py ''Other''"
proof (cases "categorize_unclean u m row = py ''Other''")
  case True
  then obtain s where s: "map_of row (py ''answer'') = Some (PStr s)" "strip u s \<noteq> []"
    "m \<le> int (length (strip u s))"
    using other_answer by blast
  with True show ?thesis by (simp add: spec_clean_def reason_cell)
next
  case False
  then show ?thesis by (simp add: spec_clean_def reason_cell)
qed

lemma assign_reason_rows:
  "rows (assign_reason u m df) =
     map (\<lambda>(i, row). (i, AList.update (py ''reason'') (PStr (categorize_unclean u m row)) row))
       (rows df)"
  by (simp add: assign_reason_def)

lemma assign_reason_index: "map fst (rows (assign_reason u m df)) = map fst (rows df)"
  by (simp add: assign_reason_rows case_prod_unfold)

lemma mask_is_spec_on_assigned:
  assumes "x \<in> set (rows (assign_reason u m df))"
  shows "(case x of (i, row) \<Rightarrow> clean_mask u m row) = (case x of (i, row) \<Rightarrow> spec_clean u m row)"
    and "(case x of (i, row) \<Rightarrow> clean_mask u m row) =
         (case x of (i, row) \<Rightarrow> get row (py ''reason'') PNaN = PStr (py ''Other''))"
proof -
  from assms obtain i row where
    x: "x = (i, AList.update (py ''reason'') (PStr (categorize_unclean u m row)) row)"
    by (auto simp: assign_reason_rows)
  show "(case x of (i, row) \<Rightarrow> clean_mask u m row) = (case x of (i, row) \<Rightarrow> spec_clean u m row)"
    unfolding x by (simp add: mask_iff_other spec_iff_other)
  show "(case x of (i, row) \<Rightarrow> clean_mask u m row) =
         (case x of (i, row) \<Rightarrow> get row (py ''reason'') PNaN = PStr (py ''Other''))"
    unfolding x by (simp add: mask_iff_other get_def reason_cell)
qed

lemma mask_is_spec_when_stripped:
  assumes "answer_stripped u row"
  shows "clean_mask u m row = spec_clean u m row"
proof (cases "map_of row (py ''answer'')")
  case None
  then show ?thesis by (simp add: clean_mask_def spec_clean_def get_def notna_def)
next
  case (Some v)
  show ?thesis
  proof (cases v)
    case PNone
    with Some show ?thesis by (simp add: clean_mask_def spec_clean_def get_def notna_def)
  next
    case PNaN
    with Some show ?thesis by (simp add: clean_mask_def spec_clean_def get_def notna_def)
  next
    case (PStr s)
    with Some assms have s: "strip u s = s" by (simp add: answer_stripped_def)
    have r: "(get row (py ''reason'') PNaN = PStr (py ''Other'')) =
             (map_of row (py ''reason'') = Some (PStr (py ''Other'')))"
      by (cases "map_of row (py ''reason'')") (simp_all add: get_def)
    from Some PStr s r show ?thesis
      by (simp add: clean_mask_def spec_clean_def notna_def Let_def) (simp add: get_def)
  qed
qed

text \<open>
  Claim C4. On classified records, that is a frame of normalized answers (each answer
  cell a stripped string or no string at all, as Step 2 leaves it, lemma
  \<open>classified_answers\<close>) with any reason tags whatever, the clean rows are exactly the rows
  with reason \<open>Other\<close>, an answer that is not null, a non-empty stripped answer and a
  stripped length of at least the threshold (\<open>spec_clean\<close>), and the unclean rows are
  exactly the others. The source compares the unstripped length; on a stripped answer
  the two lengths are one.
\<close>

theorem clean_is_spec_clean:
  assumes "clean_unclean u m df = Inr (clean_df, unclean_df)"
    and "distinct (map fst (rows df))"
    and "list_all (\<lambda>(i, row). answer_stripped u row) (rows df)"
  shows "rows clean_df = filter (\<lambda>(i, row). spec_clean u m row) (rows df)
         \<and> rows unclean_df = filter (\<lambda>(i, row). \<not> spec_clean u m row) (rows df)"
proof -
  have e: "\<And>x. x \<in> set (rows df) \<Longrightarrow>
      (case x of (i, row) \<Rightarrow> clean_mask u m row) = (case x of (i, row) \<Rightarrow> spec_clean u m row)"
    using assms(3) by (auto simp: list_all_iff mask_is_spec_when_stripped)
  have "rows clean_df = filter (\<lambda>(i, row). clean_mask u m row) (rows df)"
    using assms(1) by (rule clean_unclean_rows)
  also have "\<dots> = filter (\<lambda>(i, row). spec_clean u m row) (rows df)"
    by (rule filter_cong) (simp_all add: e)
  finally have 1: "rows clean_df = filter (\<lambda>(i, row). spec_clean u m row) (rows df)" .
  have "rows unclean_df = filter (\<lambda>x. \<not> (case x of (i, row) \<Rightarrow> clean_mask u m row)) (rows df)"
    using assms(1,2) by (rule clean_unclean_complement)
  also have "\<dots> = filter (\<lambda>(i, row). \<not> spec_clean u m row) (rows df)"
    by (rule filter_cong) (auto simp: e)
  finally have 2: "rows unclean_df = filter (\<lambda>(i, row). \<not> spec_clean u m row) (rows df)" .
  from 1 2 show ?thesis by simp
qed

subsection \<open>The whole run\<close>

lemma DataFrame_index: "map fst (rows (DataFrame data)) = [0..<length data]"
  by (simp add: DataFrame_def Let_def)

lemma clean_column_index: "map fst (rows (clean_column u col df)) = map fst (rows df)"
  by (simp add: clean_column_def case_prod_unfold)

lemma clean_columns_index: "map fst (rows (clean_columns u df)) = map fst (rows df)"
  by (simp add: clean_columns_def clean_column_index)

lemma drop_duplicates_subseq:
  assumes "drop_duplicates col df = Inr df'"
  shows "subseq (rows df') (rows df)"
  using assms by (auto simp: drop_duplicates_def first_seen_subseq split: if_splits)

lemma drop_duplicates_index:
  assumes "drop_duplicates col df = Inr df'" and "distinct (map fst (rows df))"
  shows "distinct (map fst (rows df'))"
proof -
  have "subseq (map fst (rows df')) (map fst (rows df))"
    using drop_duplicates_subseq [OF assms(1)] by (rule subseq_map)
  then have "map fst (rows df') \<in> set (subseqs (map fst (rows df)))" by simp
  then show ?thesis using assms(2) by (rule subseqs_distinctD)
qed

lemma classified_frame:
  assumes "classified u m data = Inr df"
  obtains df0 where "drop_duplicates (py ''url'') (clean_columns u (DataFrame data)) = Inr df0"
    and "df = assign_reason u m df0" and "distinct (map fst (rows df0))"
proof -
  from assms obtain df0 where
    d: "drop_duplicates (py ''url'') (clean_columns u (DataFrame data)) = Inr df0"
    and a: "df = assign_reason u m df0"
    by (auto simp: classified_def split: sum.splits)
  have "distinct (map fst (rows (clean_columns u (DataFrame data))))"
    by (simp add: clean_columns_index DataFrame_index)
  with d have "distinct (map fst (rows df0))" by (rule drop_duplicates_index)
  with d a that show ?thesis by blast
qed

lemma clean_text_stripped: "strip u (clean_text u t) = clean_text u t"
  using clean_text_normal [of u t] by (simp add: strip_id)

lemma DataFrame_row_keys:
  assumes "(i, row) \<in> set (rows (DataFrame data))"
  shows "map fst row = columns (DataFrame data)"
  using assms by (auto simp: DataFrame_def Let_def enumerate_eq_zip in_set_zip comp_def)

lemma cleaned_row_keys:
  "map (fst \<circ> (\<lambda>(k, v). if k = col then (k, PStr (clean_text u (Some (str v)))) else (k, v))) row
     = map fst row"
  by (induction row) auto

lemma clean_column_keys:
  assumes "\<forall>(i, row) \<in> set (rows df). map fst row = columns df"
  shows "\<forall>(i, row) \<in> set (rows (clean_column u col df)). map fst row = columns (clean_column u col df)"
  using assms by (auto simp: clean_column_def cleaned_row_keys)

lemma clean_column_columns: "columns (clean_column u col df) = columns df"
  by (simp add: clean_column_def)

lemma map_of_cleaned_cell:
  "map_of (map (\<lambda>(k, v). if k = col then (k, PStr (clean_text u (Some (str v)))) else (k, v)) row) col
     = map_option (\<lambda>v. PStr (clean_text u (Some (str v)))) (map_of row col)"
  by (induction row) auto

lemma clean_column_answer:
  assumes "\<forall>(i, row) \<in> set (rows df). map fst row = columns df"
  shows "list_all (\<lambda>(i, row). answer_stripped u row) (rows (clean_column u (py ''answer'') df))"
proof (cases "py ''answer'' \<in> set (columns df)")
  case True
  then show ?thesis
    by (auto simp: clean_column_def list_all_iff answer_stripped_def map_of_cleaned_cell
        clean_text_stripped split: option.splits pyval.splits)
next
  case False
  have "map_of row (py ''answer'') = None" if "(i, row) \<in> set (rows df)" for i row
  proof -
    from that assms have "map fst row = columns df" by auto
    with False have "py ''answer'' \<notin> fst ` set row" by (metis set_map)
    then show ?thesis by (simp add: map_of_eq_None_iff)
  qed
  with False show ?thesis
    by (auto simp: clean_column_def list_all_iff answer_stripped_def)
qed

lemma clean_columns_answers:
  "list_all (\<lambda>(i, row). answer_stripped u row) (rows (clean_columns u (DataFrame data)))"
proof -
  have "\<forall>(i, row) \<in> set (rows (DataFrame data)). map fst row = columns (DataFrame data)"
    using DataFrame_row_keys by blast
  then have "\<forall>(i, row) \<in> set (rows (clean_column u (py ''question'') (DataFrame data))).
      map fst row = columns (clean_column u (py ''question'') (DataFrame data))"
    by (rule clean_column_keys)
  then have "\<forall>(i, row) \<in> set (rows (clean_column u (py ''body'') (clean_column u (py ''question'') (DataFrame data)))).
      map fst row = columns (clean_column u (py ''body'') (clean_column u (py ''question'') (DataFrame data)))"
    by (rule clean_column_keys)
  then show ?thesis unfolding clean_columns_def by (rule clean_column_answer)
qed

lemma answer_stripped_update:
  "answer_stripped u (AList.update (py ''reason'') v row) = answer_stripped u row"
  by (simp add: answer_stripped_def reason_cell)

lemma first_seen_set: "set (first_seen seen key xs) \<subseteq> set xs"
  by (induction xs arbitrary: seen) auto

lemma drop_duplicates_rows_subset:
  assumes "drop_duplicates col df = Inr df'"
  shows "set (rows df') \<subseteq> set (rows df)"
  using assms first_seen_set [of "[]" "\<lambda>(i, row). map_of row col" "rows df"]
  by (auto simp: drop_duplicates_def split: if_splits)

lemma classified_answers:
  assumes "classified u m data = Inr df"
  shows "list_all (\<lambda>(i, row). answer_stripped u row) (rows df)"
proof -
  from assms obtain df0 where
    d: "drop_duplicates (py ''url'') (clean_columns u (DataFrame data)) = Inr df0"
    and a: "df = assign_reason u m df0"
    by (rule classified_frame)
  have "set (rows df0) \<subseteq> set (rows (clean_columns u (DataFrame data)))"
    using d by (rule drop_duplicates_rows_subset)
  with clean_columns_answers [of u data]
  have "list_all (\<lambda>(i, row). answer_stripped u row) (rows df0)"
    by (auto simp: list_all_iff)
  then show ?thesis
    unfolding a by (auto simp: assign_reason_rows list_all_iff answer_stripped_update)
qed


lemma to_csv_returns:
  assumes "to_csv df = (None, written)"
  shows "written = df"
  using assms by (auto simp: to_csv_def split: if_splits)

lemma clean_dataset_run:
  assumes "raw w = Some (Parsed data)" and "clean_dataset u cfg w = (None, w')"
  obtains df clean_df unclean_df where
    "classified u (MIN_ANSWER_LEN cfg) data = Inr df"
    and "clean_unclean u (MIN_ANSWER_LEN cfg) df = Inr (clean_df, unclean_df)"
    and "clean_csv w' = Some clean_df" and "unclean_csv w' = Some unclean_df"
  using assms
  by (auto simp: clean_dataset_def Let_def split: sum.splits prod.splits option.splits
      dest!: to_csv_returns)

lemma pipeline_partition:
  assumes "classified u m data = Inr df" and "clean_unclean u m df = Inr (clean_df, unclean_df)"
  shows "rows clean_df =
           filter (\<lambda>(i, row). get row (py ''reason'') PNaN = PStr (py ''Other'')) (rows df)"
    and "rows unclean_df =
           filter (\<lambda>(i, row). get row (py ''reason'') PNaN \<noteq> PStr (py ''Other'')) (rows df)"
proof -
  from assms(1) obtain df0 where a: "df = assign_reason u m df0"
    and d0: "distinct (map fst (rows df0))"
    by (rule classified_frame)
  from d0 have d: "distinct (map fst (rows df))" by (simp add: a assign_reason_index)
  have "rows clean_df = filter (\<lambda>(i, row). clean_mask u m row) (rows df)"
    using assms(2) by (rule clean_unclean_rows)
  also have "\<dots> = filter (\<lambda>(i, row). get row (py ''reason'') PNaN = PStr (py ''Other'')) (rows df)"
    unfolding a by (rule filter_cong) (simp_all add: mask_is_spec_on_assigned(2))
  finally show "rows clean_df =
           filter (\<lambda>(i, row). get row (py ''reason'') PNaN = PStr (py ''Other'')) (rows df)" .
  have "rows unclean_df = filter (\<lambda>x. \<not> (case x of (i, row) \<Rightarrow> clean_mask u m row)) (rows df)"
    using assms(2) d by (rule clean_unclean_complement)
  also have "\<dots> = filter (\<lambda>(i, row). get row (py ''reason'') PNaN \<noteq> PStr (py ''Other'')) (rows df)"
    unfolding a by (rule filter_cong) (auto simp: mask_is_spec_on_assigned(2))
  finally show "rows unclean_df =
           filter (\<lambda>(i, row). get row (py ''reason'') PNaN \<noteq> PStr (py ''Other'')) (rows df)" .
qed

text \<open>
  Claim C6, as stated, fails: no run of \<open>clean_dataset\<close> that reads a raw file and returns
  writes to the unclean output a row whose reason is \<open>Other\<close>.
\<close>

theorem other_in_unclean_impossible:
  "\<not> (\<exists>u cfg w w' data unclean_df i row.
         raw w = Some (Parsed data)
       \<and> clean_dataset u cfg w = (None, w')
       \<and> unclean_csv w' = Some unclean_df
       \<and> (i, row) \<in> set (rows unclean_df)
       \<and> get row (py ''reason'') PNaN = PStr (py ''Other''))"
proof
  assume "\<exists>u cfg w w' data unclean_df i row.
         raw w = Some (Parsed data)
       \<and> clean_dataset u cfg w = (None, w')
       \<and> unclean_csv w' = Some unclean_df
       \<and> (i, row) \<in> set (rows unclean_df)
       \<and> get row (py ''reason'') PNaN = PStr (py ''Other'')"
  then obtain u cfg w w' data unclean_df i row where
    r: "raw w = Some (Parsed data)" and c: "clean_dataset u cfg w = (None, w')"
    and f: "unclean_csv w' = Some unclean_df" and m: "(i, row) \<in> set (rows unclean_df)"
    and o: "get row (py ''reason'') PNaN = PStr (py ''Other'')"
    by blast
  from r c obtain df clean_df unclean_df' where
    k: "classified u (MIN_ANSWER_LEN cfg) data = Inr df"
    and p: "clean_unclean u (MIN_ANSWER_LEN cfg) df = Inr (clean_df, unclean_df')"
    and f': "unclean_csv w' = Some unclean_df'"
    by (rule clean_dataset_run)
  from f f' have "unclean_df' = unclean_df" by simp
  with pipeline_partition(2) [OF k p] m have "get row (py ''reason'') PNaN \<noteq> PStr (py ''Other'')"
    by auto
  with o show False by simp
qed

text \<open>
  Claim C6, amended. For every run of \<open>clean_dataset\<close> that reads a raw file and returns,
  the clean output is exactly the rows that the classifier tagged \<open>Other\<close> and the unclean
  output exactly the rows with another reason: with one threshold the re-check of
  Step 5 excludes no record classified \<open>Other\<close>.
\<close>

theorem other_rows_are_the_clean_rows:
  assumes "raw w = Some (Parsed data)" and "clean_dataset u cfg w = (None, w')"
  shows "\<exists>df clean_df unclean_df.
           classified u (MIN_ANSWER_LEN cfg) data = Inr df
         \<and> clean_csv w' = Some clean_df
         \<and> unclean_csv w' = Some unclean_df
         \<and> rows clean_df =
             filter (\<lambda>(i, row). get row (py ''reason'') PNaN = PStr (py ''Other'')) (rows df)
         \<and> rows unclean_df =
             filter (\<lambda>(i, row). get row (py ''reason'') PNaN \<noteq> PStr (py ''Other'')) (rows df)"
proof -
  from assms obtain df clean_df unclean_df where
    k: "classified u (MIN_ANSWER_LEN cfg) data = Inr df"
    and p: "clean_unclean u (MIN_ANSWER_LEN cfg) df = Inr (clean_df, unclean_df)"
    and f: "clean_csv w' = Some clean_df" "unclean_csv w' = Some unclean_df"
    by (rule clean_dataset_run)
  from pipeline_partition [OF k p] k f show ?thesis by blast
qed

text \<open>
  Claim C7. When the raw file does not exist, \<open>clean_dataset\<close> returns normally (no
  exception), the only change to the world is the line on the console, and neither
  output file is written.
\<close>

theorem clean_dataset_missing_input:
  assumes "raw w = None"
  shows "clean_dataset u cfg w = (None, w\<lparr>console := console w @ [RawNotFound]\<rparr>)
         \<and> fst (clean_dataset u cfg w) = None
         \<and> clean_csv (snd (clean_dataset u cfg w)) = clean_csv w
         \<and> unclean_csv (snd (clean_dataset u cfg w)) = unclean_csv w
         \<and> raw (snd (clean_dataset u cfg w)) = raw w"
  using assms by (simp add: clean_dataset_def)

subsection \<open>The example run, evaluated\<close>

lemmas text_defs = py_def clean_text_def match_entity_def isword_def isalnum_def ascii_alnum_def
  isspace_def ascii_space_def strip_def lstrip_def rstrip_def lower_def ascii_lower_def
  startswith_def str_def get_def

lemma example_normalized_eval: "clean_columns latin1 (DataFrame example_raw) = example_normalized"
  by (simp add: example_raw_def example_normalized_def clean_columns_def clean_column_def
      DataFrame_def float_column_def enumerate_eq_zip upt_rec text_defs)

lemma example_classified_eval: "classified latin1 15 example_raw = Inr example_classified"
  unfolding classified_def example_normalized_eval
  by (simp add: example_normalized_def example_classified_def drop_duplicates_def assign_reason_def
      categorize_unclean_def text_defs)

lemma example_dedup_eval:
  "drop_duplicates (py ''url'') example_normalized = Inr example_deduplicated"
  by (simp add: example_normalized_def example_deduplicated_def drop_duplicates_def py_def)

lemma example_assign_eval: "assign_reason latin1 15 example_deduplicated = example_classified"
  by (simp add: example_deduplicated_def example_classified_def assign_reason_def
      categorize_unclean_def text_defs)

lemma example_split_eval:
  "clean_unclean latin1 15 example_classified = Inr (example_clean, example_unclean)"
  by (simp add: example_classified_def example_clean_def example_unclean_def clean_unclean_def
      clean_mask_def notna_def text_defs)

lemma example_to_csv_eval:
  "to_csv example_clean = (None, example_clean)" "to_csv example_unclean = (None, example_unclean)"
  by (simp_all add: to_csv_def example_clean_def example_unclean_def row_encodable_def
      encodable_def py_def)

lemma example_run_eval:
  "clean_dataset latin1 example_config example_world =
     (None, example_world\<lparr>clean_csv := Some example_clean, unclean_csv := Some example_unclean,
        console := [Loaded 3, Summary 3 1 1, Breakdown {#PStr (py ''No Answer'')#}]\<rparr>)"
  by (simp add: clean_dataset_def example_world_def example_config_def MIN_ANSWER_LEN_def
      example_classified_eval example_split_eval example_to_csv_eval)
     (simp add: example_raw_def example_clean_def example_unclean_def get_def py_def)

text \<open>
  Two corners of the library calls, evaluated: a url column of a null and a missing key
  is a float column of NaN, and \<open>to_csv\<close> stops at the first row that holds a surrogate.
\<close>

lemma DataFrame_null_and_missing:
  "DataFrame [[(py ''url'', PNone), (py ''answer'', PStr (py ''x''))], [(py ''answer'', PNone)]] =
     \<lparr>columns = [py ''url'', py ''answer''],
      rows = [(0, [(py ''url'', PNaN), (py ''answer'', PStr (py ''x''))]),
              (1, [(py ''url'', PNaN), (py ''answer'', PNone)])]\<rparr>"
  by (simp add: DataFrame_def float_column_def get_def py_def enumerate_eq_zip upt_rec)

lemma to_csv_surrogate:
  "to_csv \<lparr>columns = [py ''answer''],
           rows = [(0, [(py ''answer'', PStr (py ''ok''))]), (1, [(py ''answer'', PStr [55296])]),
                   (2, [(py ''answer'', PStr (py ''late''))])]\<rparr> =
     (Some UnicodeEncodeError,
      \<lparr>columns = [py ''answer''], rows = [(0, [(py ''answer'', PStr (py ''ok''))])]\<rparr>)"
  by (simp add: to_csv_def row_encodable_def encodable_def py_def)

lemma clean_dataset_surrogate_run:
  "clean_dataset latin1 example_config
     \<lparr>raw = Some (Parsed [[(py ''url'', PStr (py ''https://a'')),
                              (py ''answer'', PStr (py ''a long enough answer '' @ [55296]))]]),
      clean_csv = None, unclean_csv = None, console = []\<rparr> =
   (Some UnicodeEncodeError,
    \<lparr>raw = Some (Parsed [[(py ''url'', PStr (py ''https://a'')),
                              (py ''answer'', PStr (py ''a long enough answer '' @ [55296]))]]),
      clean_csv = Some \<lparr>columns = [py ''url'', py ''answer'', py ''reason''], rows = []\<rparr>,
      unclean_csv = None, console = [Loaded 1]\<rparr>)"
  by (simp add: clean_dataset_def example_config_def MIN_ANSWER_LEN_def classified_def
      clean_columns_def clean_column_def DataFrame_def float_column_def drop_duplicates_def
      assign_reason_def categorize_unclean_def clean_unclean_def clean_mask_def notna_def
      to_csv_def row_encodable_def encodable_def enumerate_eq_zip upt_rec latin1_def text_defs)

text \<open>
  The mask reads the unstripped length: on a padded answer tagged \<open>Other\<close> by hand it
  differs from \<open>spec_clean\<close>. No frame of the run holds such a row: Step 2 strips every
  answer, and at threshold 5 Step 4 tags this one \<open>Too Short\<close>.
\<close>

lemma clean_mask_reads_unstripped_length:
  "clean_mask latin1 5 [(py ''answer'', PStr (py ''  ab  '')), (py ''reason'', PStr (py ''Other''))]
   \<and> \<not> spec_clean latin1 5 [(py ''answer'', PStr (py ''  ab  '')), (py ''reason'', PStr (py ''Other''))]
   \<and> categorize_unclean latin1 5
         [(py ''url'', PStr (py ''https://x'')), (py ''answer'', PStr (py ''  ab  ''))] = py ''Too Short''"
  by (simp add: clean_mask_def spec_clean_def notna_def categorize_unclean_def text_defs)

theorem clean_unclean_partition_witness:
  "clean_unclean latin1 15 example_classified = Inr (example_clean, example_unclean)
   \<and> distinct (map fst (rows example_classified))
   \<and> set (rows example_clean) \<union> set (rows example_unclean) = set (rows example_classified)
   \<and> set (rows example_clean) \<inter> set (rows example_unclean) = {}
   \<and> mset (rows example_clean) + mset (rows example_unclean) = mset (rows example_classified)"
proof -
  have d: "distinct (map fst (rows example_classified))"
    by (simp add: example_classified_def)
  from clean_unclean_partition [OF example_split_eval d] example_split_eval d
  show ?thesis by simp
qed

lemma example_tagged_eval:
  "clean_unclean latin1 15 example_tagged =
     Inr (example_tagged\<lparr>rows := take 1 (rows example_tagged)\<rparr>,
          example_tagged\<lparr>rows := drop 1 (rows example_tagged)\<rparr>)"
  "clean_unclean latin1 0 example_tagged =
     Inr (example_tagged\<lparr>rows := take 2 (rows example_tagged)\<rparr>,
          example_tagged\<lparr>rows := drop 2 (rows example_tagged)\<rparr>)"
  by (simp_all add: example_tagged_def clean_unclean_def clean_mask_def notna_def text_defs)

theorem clean_is_spec_clean_witness:
  "distinct (map fst (rows example_tagged))
   \<and> list_all (\<lambda>(i, row). answer_stripped latin1 row) (rows example_tagged)
   \<and> clean_unclean latin1 15 example_tagged =
       Inr (example_tagged\<lparr>rows := take 1 (rows example_tagged)\<rparr>,
            example_tagged\<lparr>rows := drop 1 (rows example_tagged)\<rparr>)
   \<and> map fst (filter (\<lambda>(i, row). spec_clean latin1 15 row) (rows example_tagged)) = [0]
   \<and> map fst (filter (\<lambda>(i, row). \<not> spec_clean latin1 15 row) (rows example_tagged)) = [1, 2, 3, 4, 5]
   \<and> clean_unclean latin1 0 example_tagged =
       Inr (example_tagged\<lparr>rows := take 2 (rows example_tagged)\<rparr>,
            example_tagged\<lparr>rows := drop 2 (rows example_tagged)\<rparr>)
   \<and> map fst (filter (\<lambda>(i, row). spec_clean latin1 0 row) (rows example_tagged)) = [0, 1]
   \<and> map fst (filter (\<lambda>(i, row). \<not> spec_clean latin1 0 row) (rows example_tagged)) = [2, 3, 4, 5]"
proof -
  have d: "distinct (map fst (rows example_tagged))"
    by (simp add: example_tagged_def)
  have a: "list_all (\<lambda>(i, row). answer_stripped latin1 row) (rows example_tagged)"
    by (simp add: example_tagged_def answer_stripped_def text_defs)
  have i: "map fst (take 1 (rows example_tagged)) = [0]"
    "map fst (drop 1 (rows example_tagged)) = [1, 2, 3, 4, 5]"
    "map fst (take 2 (rows example_tagged)) = [0, 1]"
    "map fst (drop 2 (rows example_tagged)) = [2, 3, 4, 5]"
    by (simp_all add: example_tagged_def)
  have "take 1 (rows example_tagged) = filter (\<lambda>(i, row). spec_clean latin1 15 row) (rows example_tagged)"
    and "drop 1 (rows example_tagged) = filter (\<lambda>(i, row). \<not> spec_clean latin1 15 row) (rows example_tagged)"
    using clean_is_spec_clean [OF example_tagged_eval(1) d a] by simp_all
  moreover have "take 2 (rows example_tagged) = filter (\<lambda>(i, row). spec_clean latin1 0 row) (rows example_tagged)"
    and "drop 2 (rows example_tagged) = filter (\<lambda>(i, row). \<not> spec_clean latin1 0 row) (rows example_tagged)"
    using clean_is_spec_clean [OF example_tagged_eval(2) d a] by simp_all
  ultimately show ?thesis
    using d a i example_tagged_eval by (simp del: take_Suc_Cons drop_Suc_Cons)
qed

theorem drop_duplicates_first_occurrence_witness:
  "drop_duplicates (py ''url'') example_normalized = Inr example_deduplicated
   \<and> py ''url'' \<in> set (columns example_normalized)
   \<and> map fst (rows example_normalized) = [0, 1, 2]
   \<and> map fst (rows example_deduplicated) = [0, 1]
   \<and> subseq (rows example_deduplicated) (rows example_normalized)
   \<and> distinct (map (\<lambda>(i, row). map_of row (py ''url'')) (rows example_deduplicated))"
proof -
  have c: "py ''url'' \<in> set (columns example_normalized)"
    by (simp add: example_normalized_def)
  have i: "map fst (rows example_normalized) = [0, 1, 2]" "map fst (rows example_deduplicated) = [0, 1]"
    by (simp_all add: example_normalized_def example_deduplicated_def)
  have s: "subseq (rows example_deduplicated) (rows example_normalized)"
    and k: "distinct (map (\<lambda>(i, row). map_of row (py ''url'')) (rows example_deduplicated))"
    using drop_duplicates_first_occurrence [OF example_dedup_eval c] by blast+
  from s k example_dedup_eval c i show ?thesis by simp
qed

theorem other_rows_are_the_clean_rows_witness:
  "raw example_world = Some (Parsed example_raw)
   \<and> clean_dataset latin1 example_config example_world =
       (None, example_world\<lparr>clean_csv := Some example_clean, unclean_csv := Some example_unclean,
          console := [Loaded 3, Summary 3 1 1, Breakdown {#PStr (py ''No Answer'')#}]\<rparr>)
   \<and> classified latin1 15 example_raw = Inr example_classified
   \<and> rows example_clean =
       filter (\<lambda>(i, row). get row (py ''reason'') PNaN = PStr (py ''Other'')) (rows example_classified)
   \<and> rows example_unclean =
       filter (\<lambda>(i, row). get row (py ''reason'') PNaN \<noteq> PStr (py ''Other'')) (rows example_classified)"
proof -
  have r: "raw example_world = Some (Parsed example_raw)"
    by (simp add: example_world_def)
  have m: "MIN_ANSWER_LEN example_config = 15"
    by (simp add: MIN_ANSWER_LEN_def example_config_def)
  from other_rows_are_the_clean_rows [OF r example_run_eval] r example_run_eval
  show ?thesis by (simp add: m example_classified_eval)
qed

theorem clean_dataset_missing_input_witness:
  "raw (example_world\<lparr>raw := None\<rparr>) = None
   \<and> clean_dataset latin1 example_config (example_world\<lparr>raw := None\<rparr>) =
       (None, \<lparr>raw = None, clean_csv = None, unclean_csv = None, console = [RawNotFound]\<rparr>)"
proof -
  have r: "raw (example_world\<lparr>raw := None\<rparr>) = None" by simp
  from clean_dataset_missing_input [OF r, of latin1 example_config] r
  show ?thesis by (simp add: example_world_def)
qed

theorem clean_text_idempotent_witness:
  "clean_text latin1 (Some (py ''a&nbsp;b   c'')) = py ''a b c''
   \<and> clean_text latin1 (Some (py ''a b c'')) = py ''a b c''"
proof -
  have e: "clean_text latin1 (Some (py ''a&nbsp;b   c'')) = py ''a b c''"
    by (simp add: text_defs)
  from clean_text_idempotent [of latin1 "py ''a&nbsp;b   c''"] e show ?thesis by simp
qed

end
